theory Spec2Isabelle
  imports Main "HOL-Library.Word"
begin

unbundle bit_operations_syntax

section \<open>Values and errors\<close>

text \<open>
  A JavaScript \<open>number\<close> that holds an integer is modelled as an \<open>int\<close>. The model is
  exact for the safe integers (absolute value at most \<open>MAX_SAFE_INTEGER\<close>), where
  \<open>parseInt\<close>, \<open>toString\<close> and the comparisons of the source are exact. Numbers with a
  fraction, and integers beyond that range, are outside the model.

  A JavaScript string is modelled as a \<open>string\<close>; a character with a code of 128 or more
  stands for some character outside ASCII.
\<close>

type_synonym number = int

definition MAX_SAFE_INTEGER :: number where
  "MAX_SAFE_INTEGER = 9007199254740991"

definition isSafeInteger :: "number \<Rightarrow> bool" where
  "isSafeInteger n = (\<bar>n\<bar> \<le> MAX_SAFE_INTEGER)"

type_synonym byte = "8 word"

type_synonym Buffer = "byte list"

text \<open>
  Every \<open>throw\<close> of the source and of the library calls it makes is a value of \<open>error\<close>:
  \<^item> \<open>Panic\<close>: \<open>getFromEitherC\<close> called with a message (or with nothing), on a \<open>Left\<close>;
  \<^item> \<open>DecodeFailure name\<close>: \<open>castEitherC\<close> called with the function that reports the
    codec's errors; \<open>name\<close> is the name of the brand that refused the value;
  \<^item> \<open>NotANumber\<close>, \<open>NotAValidNumber\<close>: the two throws of \<open>parseNonNegativeInteger\<close>;
  \<^item> \<open>TypeError\<close>: \<open>Buffer.from(undefined, 'hex')\<close>;
  \<^item> \<open>CryptoError\<close>: an exception of the \<open>crypto\<close> module.
\<close>

datatype error =
    Panic
  | DecodeFailure string
  | NotANumber
  | NotAValidNumber
  | TypeError
  | CryptoError

section \<open>utils.ts\<close>

definition getFromEitherC :: "('err \<Rightarrow> error) \<Rightarrow> 'err + 'a \<Rightarrow> error + 'a" where
  "getFromEitherC e v = (case v of Inl l \<Rightarrow> Inl (e l) | Inr r \<Rightarrow> Inr r)"

definition castEitherC :: "('err \<Rightarrow> error) \<Rightarrow> 'err + 'a \<Rightarrow> error + 'a" where
  "castEitherC = getFromEitherC"

text \<open>
  An \<open>io-ts\<close> brand decodes to \<open>Right\<close> of the value when the underlying codec accepts it
  and the predicate holds, and to \<open>Left\<close> of its errors otherwise; the errors are
  modelled by the brand's name. \<open>t.Int\<close> accepts every integer.
\<close>

definition brand :: "('a \<Rightarrow> bool) \<Rightarrow> ('a \<Rightarrow> bool) \<Rightarrow> string \<Rightarrow> 'a \<Rightarrow> string + 'a" where
  "brand codec predicate name u = (if codec u \<and> predicate u then Inr u else Inl name)"

definition t_Int :: "number \<Rightarrow> bool" where
  "t_Int n = True"

definition nonNegativeIntegerCodec :: "number \<Rightarrow> string + number" where
  "nonNegativeIntegerCodec = brand t_Int (\<lambda>n. n \<ge> 0) ''NonNegativeInteger''"

definition castNonNegativeInteger :: "number \<Rightarrow> error + number" where
  "castNonNegativeInteger p = getFromEitherC (\<lambda>_. Panic) (nonNegativeIntegerCodec p)"

subsection \<open>The built-ins \<open>parseInt(s, 10)\<close> and \<open>Number.prototype.toString\<close>\<close>

definition isStrWhiteSpaceChar :: "char \<Rightarrow> bool" where
  "isStrWhiteSpaceChar c = (of_char c \<in> {9, 10, 11, 12, 13, 32 :: nat})"

definition isDigit :: "char \<Rightarrow> bool" where
  "isDigit c = (c \<in> set ''0123456789'')"

definition digitValue :: "char \<Rightarrow> nat" where
  "digitValue c = of_char c - 48"

definition digitChar :: "nat \<Rightarrow> char" where
  "digitChar d = ''0123456789'' ! d"

definition digitsValue :: "string \<Rightarrow> nat" where
  "digitsValue ds = foldl (\<lambda>a c. 10 * a + digitValue c) 0 ds"

text \<open>
  \<open>parseInt(s, 10)\<close>: leading white space is skipped, one sign is read, and the longest
  run of decimal digits that follows is the value; with no digit the result is \<open>NaN\<close>,
  here \<open>None\<close>. The white space of JavaScript has characters outside ASCII too; the model
  skips the ASCII ones only. A string with a character outside ASCII is never the decimal
  string of a number, so \<open>parseNonNegativeInteger\<close> throws on it either way.

  \<open>n.toString(10)\<close> of an integer: its decimal digits, after a minus sign when it is
  negative.
\<close>

definition parseInt :: "string \<Rightarrow> number option" where
  "parseInt s =
     (let s1 = dropWhile isStrWhiteSpaceChar s;
          neg = (s1 \<noteq> [] \<and> hd s1 = CHR ''-'');
          s2 = (if s1 \<noteq> [] \<and> (hd s1 = CHR ''-'' \<or> hd s1 = CHR ''+'') then tl s1 else s1);
          ds = takeWhile isDigit s2
      in if ds = [] then None
         else Some (if neg then - int (digitsValue ds) else int (digitsValue ds)))"

fun natToString :: "nat \<Rightarrow> string" where
  "natToString n = (if n < 10 then [digitChar n] else natToString (n div 10) @ [digitChar (n mod 10)])"

declare natToString.simps [simp del]

definition toString :: "number \<Rightarrow> string" where
  "toString n = (if n < 0 then CHR ''-'' # natToString (nat (- n)) else natToString (nat n))"

definition parseNonNegativeInteger :: "string \<Rightarrow> error + number" where
  "parseNonNegativeInteger s =
     (case parseInt s of
        None \<Rightarrow> Inl NotANumber
      | Some n \<Rightarrow> if toString n \<noteq> s then Inl NotAValidNumber else castNonNegativeInteger n)"

section \<open>Validated strings\<close>

definition NonEmptyString :: "string \<Rightarrow> bool" where
  "NonEmptyString s = (length s > 0)"

definition BYTE_RESTRICTION :: nat where
  "BYTE_RESTRICTION = 32"

definition encodedTimestampEncryptedPartCodec :: "string \<Rightarrow> string + string" where
  "encodedTimestampEncryptedPartCodec =
     brand NonEmptyString (\<lambda>s. length s = 32) ''EncodedTimestampEncryptedPart''"

definition castEncodedTimestampEncryptedPart :: "string \<Rightarrow> error + string" where
  "castEncodedTimestampEncryptedPart encodedTimestampEncryptedPart =
     castEitherC DecodeFailure (encodedTimestampEncryptedPartCodec encodedTimestampEncryptedPart)"

definition ivCodec :: "string \<Rightarrow> string + string" where
  "ivCodec = brand NonEmptyString (\<lambda>s. length s = BYTE_RESTRICTION) ''IV''"

definition castIV :: "string \<Rightarrow> error + string" where
  "castIV iv = castEitherC DecodeFailure (ivCodec iv)"

definition CHALLENGE_SEPARATOR :: string where
  "CHALLENGE_SEPARATOR = '':''"

definition secretKeyCodec :: "string \<Rightarrow> string + string" where
  "secretKeyCodec = brand NonEmptyString (\<lambda>s. length s = BYTE_RESTRICTION) ''SecretKey''"

definition castSecretKey :: "string \<Rightarrow> error + string" where
  "castSecretKey secretKey = castEitherC DecodeFailure (secretKeyCodec secretKey)"

section \<open>The public park\<close>

text \<open>
  \<open>PublicPark\<close> is a union of three object types told apart by \<open>_tag\<close>. The transitions
  build their result with an object spread, which copies whatever properties the argument
  has; so the park is a record of the tag and of three properties that may be absent.
\<close>

record PublicPark =
  tag :: string
  parkEncodedTimestamp :: "string option"
  parkSecretKey :: "string option"
  parkTimestamp :: "number option"

definition EmptyPark :: PublicPark where
  "EmptyPark = \<lparr>tag = ''EmptyPark'', parkEncodedTimestamp = None, parkSecretKey = None,
     parkTimestamp = None\<rparr>"

definition mkParkWithChallenge :: "string \<Rightarrow> PublicPark" where
  "mkParkWithChallenge encodedTimestamp =
     \<lparr>tag = ''ParkWithChallenge'', parkEncodedTimestamp = Some encodedTimestamp,
      parkSecretKey = None, parkTimestamp = None\<rparr>"

definition mkSolvedPark :: "string \<Rightarrow> string \<Rightarrow> number \<Rightarrow> PublicPark" where
  "mkSolvedPark encodedTimestamp secretKey timestamp =
     \<lparr>tag = ''SolvedPark'', parkEncodedTimestamp = Some encodedTimestamp,
      parkSecretKey = Some secretKey, parkTimestamp = Some timestamp\<rparr>"

text \<open>
  \<open>mkParkWithChallenge\<close> and \<open>mkSolvedPark\<close> are \<open>_ParkWithChallenge\<close> and \<open>_SolvedPark\<close> of
  the source. The static types \<open>ParkWithChallenge\<close> and \<open>SolvedPark\<close> are the predicates
  \<open>isParkWithChallenge\<close> and \<open>isSolvedPark\<close>.
\<close>

definition isParkWithChallenge :: "PublicPark \<Rightarrow> bool" where
  "isParkWithChallenge park =
     (tag park = ''ParkWithChallenge'' \<and> parkEncodedTimestamp park \<noteq> None)"

definition isSolvedPark :: "PublicPark \<Rightarrow> bool" where
  "isSolvedPark park =
     (tag park = ''SolvedPark'' \<and> parkEncodedTimestamp park \<noteq> None
      \<and> parkSecretKey park \<noteq> None \<and> parkTimestamp park \<noteq> None)"

definition putChallenge :: "string \<Rightarrow> PublicPark \<Rightarrow> PublicPark" where
  "putChallenge encodedTimestamp park =
     park\<lparr>parkEncodedTimestamp := Some encodedTimestamp, tag := ''ParkWithChallenge''\<rparr>"

definition putSolution :: "number \<Rightarrow> string \<Rightarrow> PublicPark \<Rightarrow> PublicPark" where
  "putSolution timestamp secretKey park =
     park\<lparr>parkTimestamp := Some timestamp, parkSecretKey := Some secretKey,
          tag := ''SolvedPark''\<rparr>"

section \<open>Random draws\<close>

text \<open>
  A \<open>RandomGenerator\<close> of \<open>pure-rand\<close> is a value with a method \<open>next()\<close> that returns an
  integer and the generator that follows, and changes nothing. The generator is a state of
  any type \<open>'g\<close>, and its method is the function \<open>nxt\<close> that the operations take as their
  first argument. \<open>randN n\<close> runs its loop \<open>n\<close> times; \<open>randNLoop\<close> is the loop.
\<close>

fun randNLoop :: "('g \<Rightarrow> number \<times> 'g) \<Rightarrow> nat \<Rightarrow> 'g \<Rightarrow> number list \<times> 'g" where
  "randNLoop nxt 0 rng = ([], rng)"
| "randNLoop nxt (Suc k) rng =
     (let (n1, rng1) = nxt rng; (r, rng') = randNLoop nxt k rng1 in (n1 # r, rng'))"

definition randN :: "('g \<Rightarrow> number \<times> 'g) \<Rightarrow> number \<Rightarrow> 'g \<Rightarrow> number list \<times> 'g" where
  "randN nxt n rng = randNLoop nxt (nat n) rng"

section \<open>Buffers\<close>

text \<open>\<open>Buffer.from(array)\<close> keeps the low eight bits of every entry.\<close>

definition Buffer_from :: "number list \<Rightarrow> Buffer" where
  "Buffer_from ns = map word_of_int ns"

definition hexDigits :: string where
  "hexDigits = ''0123456789abcdef''"

definition hexByte :: "byte \<Rightarrow> string" where
  "hexByte b = [hexDigits ! unat (drop_bit 4 b), hexDigits ! unat (b AND 15)]"

text \<open>\<open>buf.toString('hex')\<close>, and the output encoding \<open>'hex'\<close> of a cipher.\<close>

definition toHex :: "Buffer \<Rightarrow> string" where
  "toHex buf = concat (map hexByte buf)"

definition unhex :: "char \<Rightarrow> nat option" where
  "unhex c =
     (let n = of_char c :: nat in
      if 48 \<le> n \<and> n \<le> 57 then Some (n - 48)
      else if 97 \<le> n \<and> n \<le> 102 then Some (n - 87)
      else if 65 \<le> n \<and> n \<le> 70 then Some (n - 55)
      else None)"

text \<open>
  \<open>Buffer.from(s, 'hex')\<close>: two hexadecimal digits, in either case, give a byte; decoding
  stops, without an error, at the first pair that is not two hexadecimal digits, and a
  last single character is dropped.
\<close>

fun fromHex :: "string \<Rightarrow> Buffer" where
  "fromHex (a # b # rest) =
     (case (unhex a, unhex b) of
        (Some x, Some y) \<Rightarrow> word_of_nat (16 * x + y) # fromHex rest
      | _ \<Rightarrow> [])"
| "fromHex _ = []"

text \<open>
  The encoding \<open>'utf8'\<close>. The strings encoded here are results of \<open>toString\<close>, which are
  ASCII: one byte for each character. A decoded byte of 128 or more gives characters
  outside ASCII, which the model writes as the character of that code.
\<close>

definition utf8Encode :: "string \<Rightarrow> Buffer" where
  "utf8Encode s = map of_char s"

definition utf8Decode :: "Buffer \<Rightarrow> string" where
  "utf8Decode buf = map (\<lambda>b. char_of (unat b)) buf"

text \<open>\<open>s.split(sep)\<close> for a separator of one character: never an empty list.\<close>

fun split :: "char \<Rightarrow> string \<Rightarrow> string list" where
  "split sep [] = [[]]"
| "split sep (c # cs) =
     (if c = sep then [] # split sep cs
      else (case split sep cs of p # ps \<Rightarrow> (c # p) # ps | [] \<Rightarrow> [[c]]))"

section \<open>The cipher \<open>aes-128-cbc\<close> of the \<open>crypto\<close> module\<close>

text \<open>
  Modelled from the spec: the source calls the cipher of the \<open>crypto\<close> module of Node.js,
  which is not code of the repository. The spec gives its contract: a key of 16 bytes, an
  initialization vector of 16 bytes, block mode CBC, PKCS#7 padding, and a decryption that
  fails on a wrong key, vector or padding. The chaining, the padding and the checks are
  written out below, as \<open>update\<close> and \<open>final\<close> perform them. The permutation of one block of
  16 bytes under a key is an argument of the operations: \<open>E\<close> encrypts a block, \<open>D\<close>
  decrypts one.
\<close>

type_synonym blockCipher = "Buffer \<Rightarrow> Buffer \<Rightarrow> Buffer"

text \<open>
  What the operations need of the two permutations: both map a block of 16 bytes to a block
  of 16 bytes, and \<open>D\<close> undoes \<open>E\<close>.
\<close>

definition blockSized :: "blockCipher \<Rightarrow> bool" where
  "blockSized E = (\<forall>key block. length key = 16 \<and> length block = 16 \<longrightarrow> length (E key block) = 16)"

definition blockCipherPair :: "blockCipher \<Rightarrow> blockCipher \<Rightarrow> bool" where
  "blockCipherPair E D =
     (blockSized E \<and> blockSized D \<and>
      (\<forall>key block. length key = 16 \<and> length block = 16 \<longrightarrow> D key (E key block) = block))"

definition xorBytes :: "Buffer \<Rightarrow> Buffer \<Rightarrow> Buffer" where
  "xorBytes a b = map (\<lambda>(x, y). x XOR y) (zip a b)"

text \<open>
  A cipher object: its key, the chaining value (the initialization vector, then the last
  block of ciphertext) and the input that does not yet fill a block.
\<close>

record Cipheriv =
  cipherKey :: Buffer
  cipherChain :: Buffer
  cipherPending :: Buffer

text \<open>
  \<open>createCipheriv('aes-128-cbc', key, iv)\<close> and \<open>createDecipheriv\<close> throw on a key or a
  vector that is not 16 bytes.
\<close>

definition createCipheriv :: "Buffer \<Rightarrow> Buffer \<Rightarrow> error + Cipheriv" where
  "createCipheriv key iv =
     (if length key \<noteq> 16 \<or> length iv \<noteq> 16 then Inl CryptoError
      else Inr \<lparr>cipherKey = key, cipherChain = iv, cipherPending = []\<rparr>)"

definition createDecipheriv :: "Buffer \<Rightarrow> Buffer \<Rightarrow> error + Cipheriv" where
  "createDecipheriv key iv = createCipheriv key iv"

text \<open>The whole blocks of \<open>data\<close>, encrypted in CBC mode; with the chaining value that follows.\<close>

fun cbcEncrypt :: "blockCipher \<Rightarrow> Buffer \<Rightarrow> Buffer \<Rightarrow> Buffer \<Rightarrow> Buffer \<times> Buffer" where
  "cbcEncrypt E key chain data =
     (if length data < 16 then ([], chain)
      else (let c = E key (xorBytes (take 16 data) chain);
                (out, chain') = cbcEncrypt E key c (drop 16 data)
            in (c @ out, chain')))"

declare cbcEncrypt.simps [simp del]

fun cbcDecrypt :: "blockCipher \<Rightarrow> Buffer \<Rightarrow> Buffer \<Rightarrow> Buffer \<Rightarrow> Buffer \<times> Buffer" where
  "cbcDecrypt D key chain data =
     (if length data < 16 then ([], chain)
      else (let c = take 16 data;
                p = xorBytes (D key c) chain;
                (out, chain') = cbcDecrypt D key c (drop 16 data)
            in (p @ out, chain')))"

declare cbcDecrypt.simps [simp del]

text \<open>\<open>cipher.update(data)\<close>: encrypts the blocks that are full and keeps the rest.\<close>

definition cipherUpdate :: "blockCipher \<Rightarrow> Cipheriv \<Rightarrow> Buffer \<Rightarrow> Buffer \<times> Cipheriv" where
  "cipherUpdate E cipher data =
     (let buf = cipherPending cipher @ data;
          n = length buf div 16 * 16;
          (out, chain') = cbcEncrypt E (cipherKey cipher) (cipherChain cipher) (take n buf)
      in (out, cipher\<lparr>cipherChain := chain', cipherPending := drop n buf\<rparr>))"

text \<open>PKCS#7: \<open>n\<close> bytes of value \<open>n\<close> fill the last block, a whole block when it is full.\<close>

definition pkcs7pad :: "Buffer \<Rightarrow> Buffer" where
  "pkcs7pad buf = (let n = 16 - length buf mod 16 in buf @ replicate n (of_nat n))"

text \<open>\<open>cipher.final()\<close>: pads what is kept to a full block and encrypts it.\<close>

definition cipherFinal :: "blockCipher \<Rightarrow> Cipheriv \<Rightarrow> Buffer" where
  "cipherFinal E cipher =
     fst (cbcEncrypt E (cipherKey cipher) (cipherChain cipher) (pkcs7pad (cipherPending cipher)))"

text \<open>
  \<open>decipher.update(data)\<close>: decrypts the full blocks but the last one, which is kept for
  \<open>final\<close> to take the padding off, and keeps an incomplete block too. With less than a
  block of input nothing is decrypted (the subtraction stops at 0).
\<close>

definition decipherUpdate :: "blockCipher \<Rightarrow> Cipheriv \<Rightarrow> Buffer \<Rightarrow> Buffer \<times> Cipheriv" where
  "decipherUpdate D decipher data =
     (let buf = cipherPending decipher @ data;
          full = length buf div 16 * 16;
          n = (if length buf mod 16 = 0 then full - 16 else full);
          (out, chain') = cbcDecrypt D (cipherKey decipher) (cipherChain decipher) (take n buf)
      in (out, decipher\<lparr>cipherChain := chain', cipherPending := drop n buf\<rparr>))"

text \<open>
  \<open>decipher.update(data, 'hex', ...)\<close>: a string of odd length is refused; the string is
  then decoded as \<open>Buffer.from(data, 'hex')\<close> decodes it.
\<close>

definition decipherUpdateHex ::
  "blockCipher \<Rightarrow> Cipheriv \<Rightarrow> string \<Rightarrow> error + Buffer \<times> Cipheriv" where
  "decipherUpdateHex D decipher data =
     (if odd (length data) then Inl CryptoError
      else Inr (decipherUpdate D decipher (fromHex data)))"

text \<open>
  The padding of a decrypted block: its last byte \<open>n\<close> is between 1 and 16, and its last
  \<open>n\<close> bytes are all \<open>n\<close>; they are taken off.
\<close>

definition pkcs7unpad :: "Buffer \<Rightarrow> error + Buffer" where
  "pkcs7unpad block =
     (let n = unat (last block) in
      if n = 0 \<or> n > 16 \<or> drop (16 - n) block \<noteq> replicate n (of_nat n) then Inl CryptoError
      else Inr (take (16 - n) block))"

text \<open>
  \<open>decipher.final()\<close>: throws unless exactly one block is kept; decrypts it and takes the
  padding off, or throws when the padding is not well formed.
\<close>

definition decipherFinal :: "blockCipher \<Rightarrow> Cipheriv \<Rightarrow> error + Buffer" where
  "decipherFinal D decipher =
     (if length (cipherPending decipher) \<noteq> 16 then Inl CryptoError
      else pkcs7unpad
        (fst (cbcDecrypt D (cipherKey decipher) (cipherChain decipher) (cipherPending decipher))))"

section \<open>The block cipher AES-128\<close>

text \<open>
  Modelled from the spec: the block cipher is not code of the repository; the spec names it,
  AES with a key of 128 bits. This is AES-128 as the standard (FIPS 197) defines it, on a
  key and a block of 16 bytes each: the pair of block permutations to run the operations
  on. The facts about the operations are proved for every such pair.
\<close>

text \<open>The substitution table of AES and its inverse.\<close>

definition sboxTable :: Buffer where
  "sboxTable = [
      0x63, 0x7c, 0x77, 0x7b, 0xf2, 0x6b, 0x6f, 0xc5, 0x30, 0x01, 0x67, 0x2b, 0xfe, 0xd7, 0xab, 0x76,
      0xca, 0x82, 0xc9, 0x7d, 0xfa, 0x59, 0x47, 0xf0, 0xad, 0xd4, 0xa2, 0xaf, 0x9c, 0xa4, 0x72, 0xc0,
      0xb7, 0xfd, 0x93, 0x26, 0x36, 0x3f, 0xf7, 0xcc, 0x34, 0xa5, 0xe5, 0xf1, 0x71, 0xd8, 0x31, 0x15,
      0x04, 0xc7, 0x23, 0xc3, 0x18, 0x96, 0x05, 0x9a, 0x07, 0x12, 0x80, 0xe2, 0xeb, 0x27, 0xb2, 0x75,
      0x09, 0x83, 0x2c, 0x1a, 0x1b, 0x6e, 0x5a, 0xa0, 0x52, 0x3b, 0xd6, 0xb3, 0x29, 0xe3, 0x2f, 0x84,
      0x53, 0xd1, 0x00, 0xed, 0x20, 0xfc, 0xb1, 0x5b, 0x6a, 0xcb, 0xbe, 0x39, 0x4a, 0x4c, 0x58, 0xcf,
      0xd0, 0xef, 0xaa, 0xfb, 0x43, 0x4d, 0x33, 0x85, 0x45, 0xf9, 0x02, 0x7f, 0x50, 0x3c, 0x9f, 0xa8,
      0x51, 0xa3, 0x40, 0x8f, 0x92, 0x9d, 0x38, 0xf5, 0xbc, 0xb6, 0xda, 0x21, 0x10, 0xff, 0xf3, 0xd2,
      0xcd, 0x0c, 0x13, 0xec, 0x5f, 0x97, 0x44, 0x17, 0xc4, 0xa7, 0x7e, 0x3d, 0x64, 0x5d, 0x19, 0x73,
      0x60, 0x81, 0x4f, 0xdc, 0x22, 0x2a, 0x90, 0x88, 0x46, 0xee, 0xb8, 0x14, 0xde, 0x5e, 0x0b, 0xdb,
      0xe0, 0x32, 0x3a, 0x0a, 0x49, 0x06, 0x24, 0x5c, 0xc2, 0xd3, 0xac, 0x62, 0x91, 0x95, 0xe4, 0x79,
      0xe7, 0xc8, 0x37, 0x6d, 0x8d, 0xd5, 0x4e, 0xa9, 0x6c, 0x56, 0xf4, 0xea, 0x65, 0x7a, 0xae, 0x08,
      0xba, 0x78, 0x25, 0x2e, 0x1c, 0xa6, 0xb4, 0xc6, 0xe8, 0xdd, 0x74, 0x1f, 0x4b, 0xbd, 0x8b, 0x8a,
      0x70, 0x3e, 0xb5, 0x66, 0x48, 0x03, 0xf6, 0x0e, 0x61, 0x35, 0x57, 0xb9, 0x86, 0xc1, 0x1d, 0x9e,
      0xe1, 0xf8, 0x98, 0x11, 0x69, 0xd9, 0x8e, 0x94, 0x9b, 0x1e, 0x87, 0xe9, 0xce, 0x55, 0x28, 0xdf,
      0x8c, 0xa1, 0x89, 0x0d, 0xbf, 0xe6, 0x42, 0x68, 0x41, 0x99, 0x2d, 0x0f, 0xb0, 0x54, 0xbb, 0x16]"

definition invSboxTable :: Buffer where
  "invSboxTable = [
      0x52, 0x09, 0x6a, 0xd5, 0x30, 0x36, 0xa5, 0x38, 0xbf, 0x40, 0xa3, 0x9e, 0x81, 0xf3, 0xd7, 0xfb,
      0x7c, 0xe3, 0x39, 0x82, 0x9b, 0x2f, 0xff, 0x87, 0x34, 0x8e, 0x43, 0x44, 0xc4, 0xde, 0xe9, 0xcb,
      0x54, 0x7b, 0x94, 0x32, 0xa6, 0xc2, 0x23, 0x3d, 0xee, 0x4c, 0x95, 0x0b, 0x42, 0xfa, 0xc3, 0x4e,
      0x08, 0x2e, 0xa1, 0x66, 0x28, 0xd9, 0x24, 0xb2, 0x76, 0x5b, 0xa2, 0x49, 0x6d, 0x8b, 0xd1, 0x25,
      0x72, 0xf8, 0xf6, 0x64, 0x86, 0x68, 0x98, 0x16, 0xd4, 0xa4, 0x5c, 0xcc, 0x5d, 0x65, 0xb6, 0x92,
      0x6c, 0x70, 0x48, 0x50, 0xfd, 0xed, 0xb9, 0xda, 0x5e, 0x15, 0x46, 0x57, 0xa7, 0x8d, 0x9d, 0x84,
      0x90, 0xd8, 0xab, 0x00, 0x8c, 0xbc, 0xd3, 0x0a, 0xf7, 0xe4, 0x58, 0x05, 0xb8, 0xb3, 0x45, 0x06,
      0xd0, 0x2c, 0x1e, 0x8f, 0xca, 0x3f, 0x0f, 0x02, 0xc1, 0xaf, 0xbd, 0x03, 0x01, 0x13, 0x8a, 0x6b,
      0x3a, 0x91, 0x11, 0x41, 0x4f, 0x67, 0xdc, 0xea, 0x97, 0xf2, 0xcf, 0xce, 0xf0, 0xb4, 0xe6, 0x73,
      0x96, 0xac, 0x74, 0x22, 0xe7, 0xad, 0x35, 0x85, 0xe2, 0xf9, 0x37, 0xe8, 0x1c, 0x75, 0xdf, 0x6e,
      0x47, 0xf1, 0x1a, 0x71, 0x1d, 0x29, 0xc5, 0x89, 0x6f, 0xb7, 0x62, 0x0e, 0xaa, 0x18, 0xbe, 0x1b,
      0xfc, 0x56, 0x3e, 0x4b, 0xc6, 0xd2, 0x79, 0x20, 0x9a, 0xdb, 0xc0, 0xfe, 0x78, 0xcd, 0x5a, 0xf4,
      0x1f, 0xdd, 0xa8, 0x33, 0x88, 0x07, 0xc7, 0x31, 0xb1, 0x12, 0x10, 0x59, 0x27, 0x80, 0xec, 0x5f,
      0x60, 0x51, 0x7f, 0xa9, 0x19, 0xb5, 0x4a, 0x0d, 0x2d, 0xe5, 0x7a, 0x9f, 0x93, 0xc9, 0x9c, 0xef,
      0xa0, 0xe0, 0x3b, 0x4d, 0xae, 0x2a, 0xf5, 0xb0, 0xc8, 0xeb, 0xbb, 0x3c, 0x83, 0x53, 0x99, 0x61,
      0x17, 0x2b, 0x04, 0x7e, 0xba, 0x77, 0xd6, 0x26, 0xe1, 0x69, 0x14, 0x63, 0x55, 0x21, 0x0c, 0x7d]"

definition subByte :: "byte \<Rightarrow> byte" where
  "subByte b = sboxTable ! unat b"

definition invSubByte :: "byte \<Rightarrow> byte" where
  "invSubByte b = invSboxTable ! unat b"

definition subBytes :: "Buffer \<Rightarrow> Buffer" where
  "subBytes st = map subByte st"

definition invSubBytes :: "Buffer \<Rightarrow> Buffer" where
  "invSubBytes st = map invSubByte st"

text \<open>
  The state is the block, column after column: byte \<open>r + 4 * c\<close> is in row \<open>r\<close> and column
  \<open>c\<close>. \<open>ShiftRows\<close> moves row \<open>r\<close> by \<open>r\<close> places to the left.
\<close>

fun shiftRows :: "Buffer \<Rightarrow> Buffer" where
  "shiftRows [s0, s1, s2, s3, s4, s5, s6, s7, s8, s9, s10, s11, s12, s13, s14, s15] =
     [s0, s5, s10, s15, s4, s9, s14, s3, s8, s13, s2, s7, s12, s1, s6, s11]"
| "shiftRows st = st"

fun invShiftRows :: "Buffer \<Rightarrow> Buffer" where
  "invShiftRows [s0, s1, s2, s3, s4, s5, s6, s7, s8, s9, s10, s11, s12, s13, s14, s15] =
     [s0, s13, s10, s7, s4, s1, s14, s11, s8, s5, s2, s15, s12, s9, s6, s3]"
| "invShiftRows st = st"

text \<open>
  Multiplication by \<open>x\<close> in the field of 256 elements, and \<open>MixColumns\<close>, which multiplies
  every column by the matrix of the standard; the inverse uses the factors 9, 11, 13, 14.
\<close>

definition xtime :: "byte \<Rightarrow> byte" where
  "xtime b = push_bit 1 b XOR (if bit b 7 then 0x1b else 0)"

definition mixColumn :: "byte \<Rightarrow> byte \<Rightarrow> byte \<Rightarrow> byte \<Rightarrow> Buffer" where
  "mixColumn a0 a1 a2 a3 =
     [xtime a0 XOR (xtime a1 XOR a1) XOR a2 XOR a3,
      a0 XOR xtime a1 XOR (xtime a2 XOR a2) XOR a3,
      a0 XOR a1 XOR xtime a2 XOR (xtime a3 XOR a3),
      (xtime a0 XOR a0) XOR a1 XOR a2 XOR xtime a3]"

fun mixColumns :: "Buffer \<Rightarrow> Buffer" where
  "mixColumns (a0 # a1 # a2 # a3 # rest) = mixColumn a0 a1 a2 a3 @ mixColumns rest"
| "mixColumns st = st"

definition mul9 :: "byte \<Rightarrow> byte" where
  "mul9 b = xtime (xtime (xtime b)) XOR b"

definition mul11 :: "byte \<Rightarrow> byte" where
  "mul11 b = xtime (xtime (xtime b)) XOR xtime b XOR b"

definition mul13 :: "byte \<Rightarrow> byte" where
  "mul13 b = xtime (xtime (xtime b)) XOR xtime (xtime b) XOR b"

definition mul14 :: "byte \<Rightarrow> byte" where
  "mul14 b = xtime (xtime (xtime b)) XOR xtime (xtime b) XOR xtime b"

definition invMixColumn :: "byte \<Rightarrow> byte \<Rightarrow> byte \<Rightarrow> byte \<Rightarrow> Buffer" where
  "invMixColumn a0 a1 a2 a3 =
     [mul14 a0 XOR mul11 a1 XOR mul13 a2 XOR mul9 a3,
      mul9 a0 XOR mul14 a1 XOR mul11 a2 XOR mul13 a3,
      mul13 a0 XOR mul9 a1 XOR mul14 a2 XOR mul11 a3,
      mul11 a0 XOR mul13 a1 XOR mul9 a2 XOR mul14 a3]"

fun invMixColumns :: "Buffer \<Rightarrow> Buffer" where
  "invMixColumns (a0 # a1 # a2 # a3 # rest) = invMixColumn a0 a1 a2 a3 @ invMixColumns rest"
| "invMixColumns st = st"

text \<open>The round key that follows a round key, with the round constant \<open>rc\<close>.\<close>

fun nextRoundKey :: "byte \<Rightarrow> Buffer \<Rightarrow> Buffer" where
  "nextRoundKey rc [k0, k1, k2, k3, k4, k5, k6, k7, k8, k9, k10, k11, k12, k13, k14, k15] =
     (let w0 = [k0 XOR subByte k13 XOR rc, k1 XOR subByte k14, k2 XOR subByte k15, k3 XOR subByte k12];
          w1 = xorBytes [k4, k5, k6, k7] w0;
          w2 = xorBytes [k8, k9, k10, k11] w1;
          w3 = xorBytes [k12, k13, k14, k15] w2
      in w0 @ w1 @ w2 @ w3)"
| "nextRoundKey rc k = k"

fun keySchedule :: "Buffer \<Rightarrow> byte list \<Rightarrow> Buffer list" where
  "keySchedule k [] = []"
| "keySchedule k (rc # rcs) = nextRoundKey rc k # keySchedule (nextRoundKey rc k) rcs"

definition roundConstants :: "byte list" where
  "roundConstants = [0x01, 0x02, 0x04, 0x08, 0x10, 0x20, 0x40, 0x80, 0x1b, 0x36]"

text \<open>
  A round of the cipher and the round that undoes it; the last round has no \<open>MixColumns\<close>.
\<close>

definition encRound :: "Buffer \<Rightarrow> Buffer \<Rightarrow> Buffer" where
  "encRound st rk = xorBytes (mixColumns (shiftRows (subBytes st))) rk"

definition decRound :: "Buffer \<Rightarrow> Buffer \<Rightarrow> Buffer" where
  "decRound rk st = invSubBytes (invShiftRows (invMixColumns (xorBytes st rk)))"

fun cipherRounds :: "Buffer \<Rightarrow> Buffer list \<Rightarrow> Buffer" where
  "cipherRounds st [] = st"
| "cipherRounds st [rk] = xorBytes (shiftRows (subBytes st)) rk"
| "cipherRounds st (rk # rks) = cipherRounds (encRound st rk) rks"

fun invCipherRounds :: "Buffer list \<Rightarrow> Buffer \<Rightarrow> Buffer" where
  "invCipherRounds [] st = st"
| "invCipherRounds [rk] st = invSubBytes (invShiftRows (xorBytes st rk))"
| "invCipherRounds (rk # rks) st = decRound rk (invCipherRounds rks st)"

definition aesEncryptBlock :: blockCipher where
  "aesEncryptBlock key block = cipherRounds (xorBytes block key) (keySchedule key roundConstants)"

definition aesDecryptBlock :: blockCipher where
  "aesDecryptBlock key block =
     xorBytes (invCipherRounds (keySchedule key roundConstants) block) key"

section \<open>The challenge codec\<close>

text \<open>
  \<open>createChallenge\<close> and \<open>decodeTimestamp\<close>, statement by statement. The method of the
  generator and the block permutation are their first arguments; the record \<open>Challenge\<close> is
  the object that \<open>createChallenge\<close> returns.
\<close>

record Challenge =
  encodedTimestamp :: string
  secretKey :: Buffer

definition createChallenge ::
  "('g \<Rightarrow> number \<times> 'g) \<Rightarrow> blockCipher \<Rightarrow> number \<Rightarrow> 'g \<Rightarrow> error + Challenge \<times> 'g" where
  "createChallenge nxt E timestamp rng =
     (case castNonNegativeInteger 16 of Inl e \<Rightarrow> Inl e | Inr sixteen \<Rightarrow>
      let (n1, rng1) = randN nxt sixteen rng;
          key = Buffer_from n1
      in (case castNonNegativeInteger 16 of Inl e \<Rightarrow> Inl e | Inr sixteen' \<Rightarrow>
      let (n2, rng2) = randN nxt sixteen' rng1;
          iv = Buffer_from n2
      in (case createCipheriv key iv of Inl e \<Rightarrow> Inl e | Inr cipher \<Rightarrow>
      let (out1, cipher1) = cipherUpdate E cipher (utf8Encode (toString timestamp));
          encoded = toHex out1 @ toHex (cipherFinal E cipher1)
      in (case castEncodedTimestampEncryptedPart encoded of Inl e \<Rightarrow> Inl e | Inr part \<Rightarrow>
         (case castIV (toHex iv) of Inl e \<Rightarrow> Inl e | Inr ivHex \<Rightarrow>
            Inr (\<lparr>encodedTimestamp = part @ CHALLENGE_SEPARATOR @ ivHex, secretKey = key\<rparr>,
                 rng2))))))"

text \<open>
  The destructuring \<open>[encoded, ivHex] = encodedTimestamp.split(':')\<close> takes the first two
  parts and ignores any other; with one part only, \<open>ivHex\<close> is \<open>undefined\<close> and
  \<open>Buffer.from\<close> throws.
\<close>

definition decodeTimestamp :: "blockCipher \<Rightarrow> string \<Rightarrow> Buffer \<Rightarrow> error + number" where
  "decodeTimestamp D encoded_timestamp key =
     (case split (CHR '':'') encoded_timestamp of
        encoded # ivHex # _ \<Rightarrow>
          let iv = fromHex ivHex
          in (case createDecipheriv key iv of Inl e \<Rightarrow> Inl e | Inr decipher \<Rightarrow>
             (case decipherUpdateHex D decipher encoded of Inl e \<Rightarrow> Inl e
              | Inr (out1, decipher1) \<Rightarrow>
                (case decipherFinal D decipher1 of Inl e \<Rightarrow> Inl e | Inr out2 \<Rightarrow>
                   parseNonNegativeInteger (utf8Decode out1 @ utf8Decode out2))))
      | _ \<Rightarrow> Inl TypeError)"

section \<open>What the spec names\<close>

text \<open>
  The spec describes the cipher as one operation, \<open>encrypt(key, iv, plaintext)\<close>, and its
  inverse. These are the two operations written that way, to be compared with the calls of
  \<open>update\<close> and \<open>final\<close> that the source makes.
\<close>

definition aes128cbcEncrypt :: "blockCipher \<Rightarrow> Buffer \<Rightarrow> Buffer \<Rightarrow> Buffer \<Rightarrow> error + Buffer" where
  "aes128cbcEncrypt E key iv plaintext =
     (if length key \<noteq> 16 \<or> length iv \<noteq> 16 then Inl CryptoError
      else Inr (fst (cbcEncrypt E key iv (pkcs7pad plaintext))))"

definition aes128cbcDecrypt :: "blockCipher \<Rightarrow> Buffer \<Rightarrow> Buffer \<Rightarrow> Buffer \<Rightarrow> error + Buffer" where
  "aes128cbcDecrypt D key iv ciphertext =
     (if length key \<noteq> 16 \<or> length iv \<noteq> 16 then Inl CryptoError
      else if ciphertext = [] \<or> length ciphertext mod 16 \<noteq> 0 then Inl CryptoError
      else (let padded = fst (cbcDecrypt D key iv ciphertext);
                n = length ciphertext - 16
            in (case pkcs7unpad (drop n padded) of
                  Inl e \<Rightarrow> Inl e
                | Inr rest \<Rightarrow> Inr (take n padded @ rest))))"

text \<open>
  A string on which the model of \<open>parseInt\<close> is exact: the integer it reads, if any, is a
  safe integer.
\<close>

definition inSafeRange :: "string \<Rightarrow> bool" where
  "inSafeRange s = (case parseInt s of None \<Rightarrow> True | Some n \<Rightarrow> isSafeInteger n)"

text \<open>
  The padding of a decrypted message, as PKCS#7 words it: the message is not empty, its last
  byte \<open>n\<close> is between 1 and 16, and its last \<open>n\<close> bytes are all \<open>n\<close>; and the message without
  its padding.
\<close>

definition wellPadded :: "Buffer \<Rightarrow> bool" where
  "wellPadded p =
     (p \<noteq> [] \<and>
      (let n = unat (last p)
       in 1 \<le> n \<and> n \<le> 16 \<and> drop (length p - n) p = replicate n (last p)))"

definition unpadded :: "Buffer \<Rightarrow> Buffer" where
  "unpadded p = (if p = [] then [] else take (length p - unat (last p)) p)"

text \<open>
  The bytes that CBC decryption gives for the first two parts of an encoded timestamp, the
  padding included.
\<close>

definition decryptedBlocks :: "blockCipher \<Rightarrow> Buffer \<Rightarrow> string \<Rightarrow> string \<Rightarrow> Buffer" where
  "decryptedBlocks D key ivHex encoded = fst (cbcDecrypt D key (fromHex ivHex) (fromHex encoded))"

text \<open>
  An encoded timestamp whose payload is in the range where the model of \<open>parseInt\<close> is
  exact: when its first two parts decrypt to a payload (the first part has an even length,
  the key and the vector are 16 bytes, the ciphertext is a whole number of blocks and at
  least one, the decrypted bytes are well padded), the integer that the payload reads as,
  if any, is a safe integer.
\<close>

definition payloadInSafeRange :: "blockCipher \<Rightarrow> string \<Rightarrow> Buffer \<Rightarrow> bool" where
  "payloadInSafeRange D et key =
     (case split (CHR '':'') et of
        encoded # ivHex # _ \<Rightarrow>
          even (length encoded)
          \<and> length key = 16 \<and> length (fromHex ivHex) = 16
          \<and> fromHex encoded \<noteq> [] \<and> length (fromHex encoded) mod 16 = 0
          \<and> wellPadded (decryptedBlocks D key ivHex encoded)
          \<longrightarrow> inSafeRange (utf8Decode (unpadded (decryptedBlocks D key ivHex encoded)))
      | _ \<Rightarrow> True)"

text \<open>The first \<open>k\<close> values a generator gives, and the generator after \<open>k\<close> steps.\<close>

definition drawn :: "('g \<Rightarrow> number \<times> 'g) \<Rightarrow> nat \<Rightarrow> 'g \<Rightarrow> number list" where
  "drawn nxt k rng = map (\<lambda>i. fst (nxt (((\<lambda>g. snd (nxt g)) ^^ i) rng))) [0..<k]"

definition advanced :: "('g \<Rightarrow> number \<times> 'g) \<Rightarrow> nat \<Rightarrow> 'g \<Rightarrow> 'g" where
  "advanced nxt k rng = ((\<lambda>g. snd (nxt g)) ^^ k) rng"

text \<open>A string of lowercase hexadecimal digits.\<close>

definition isLowerHex :: "string \<Rightarrow> bool" where
  "isLowerHex s = list_all (\<lambda>c. c \<in> set ''0123456789abcdef'') s"

section \<open>A generator to run the operations on\<close>

text \<open>A generator that counts: its state is the next value it gives.\<close>

definition countingNext :: "int \<Rightarrow> number \<times> int" where
  "countingNext s = (s, s + 1)"

section \<open>Numbers and their decimal strings\<close>

lemma digit_cases: "d < 10 \<Longrightarrow> d \<in> {0, 1, 2, 3, 4, 5, 6, 7, 8, 9 :: nat}"
  by auto

lemma digitChar_props:
  assumes "d < 10"
  shows "isDigit (digitChar d)" and "digitValue (digitChar d) = d"
    and "\<not> isStrWhiteSpaceChar (digitChar d)"
    and "digitChar d \<noteq> CHR ''-''" and "digitChar d \<noteq> CHR ''+''"
  using digit_cases [OF assms]
  by (auto simp: isDigit_def digitChar_def digitValue_def isStrWhiteSpaceChar_def)

lemma natToString_nonempty: "natToString n \<noteq> []"
  by (subst natToString.simps) simp

lemma natToString_digits: "c \<in> set (natToString n) \<Longrightarrow> isDigit c"
proof (induction n arbitrary: c rule: natToString.induct)
  case (1 n)
  show ?case
  proof (cases "n < 10")
    case True
    with "1.prems" show ?thesis
      by (subst (asm) natToString.simps) (simp add: digitChar_props)
  next
    case False
    with "1.prems" have "c \<in> set (natToString (n div 10)) \<or> c = digitChar (n mod 10)"
      by (subst (asm) natToString.simps) auto
    with False "1.IH" show ?thesis
      by (auto simp: digitChar_props)
  qed
qed

lemma digitsValue_snoc: "digitsValue (ds @ [c]) = 10 * digitsValue ds + digitValue c"
  by (simp add: digitsValue_def)

lemma digitsValue_natToString: "digitsValue (natToString n) = n"
proof (induction n rule: natToString.induct)
  case (1 n)
  show ?case
  proof (cases "n < 10")
    case True
    then show ?thesis
      by (subst natToString.simps) (simp add: digitsValue_def digitChar_props)
  next
    case False
    then have "digitsValue (natToString n) = 10 * digitsValue (natToString (n div 10)) + digitValue (digitChar (n mod 10))"
      by (subst natToString.simps) (simp add: digitsValue_snoc)
    with False "1.IH" show ?thesis
      by (simp add: digitChar_props)
  qed
qed

lemma hd_natToString: "isDigit (hd (natToString n))"
  using natToString_nonempty [of n] natToString_digits [of "hd (natToString n)" n]
  by simp

lemma isDigit_not_space: "isDigit c \<Longrightarrow> \<not> isStrWhiteSpaceChar c \<and> c \<noteq> CHR ''-'' \<and> c \<noteq> CHR ''+''"
  by (auto simp: isDigit_def isStrWhiteSpaceChar_def)

lemma parseInt_natToString: "parseInt (natToString n) = Some (int n)"
proof -
  let ?s = "natToString n"
  have ne: "?s \<noteq> []" by (rule natToString_nonempty)
  have h: "\<not> isStrWhiteSpaceChar (hd ?s) \<and> hd ?s \<noteq> CHR ''-'' \<and> hd ?s \<noteq> CHR ''+''"
    using hd_natToString isDigit_not_space by blast
  have dw: "dropWhile isStrWhiteSpaceChar ?s = ?s"
    using ne h by (cases ?s) auto
  have tw: "takeWhile isDigit ?s = ?s"
    using natToString_digits by (simp add: takeWhile_eq_all_conv)
  show ?thesis
    using ne h by (simp add: parseInt_def dw tw Let_def digitsValue_natToString)
qed

lemma parseInt_minus_natToString: "parseInt (CHR ''-'' # natToString n) = Some (- int n)"
proof -
  let ?s = "natToString n"
  have ne: "?s \<noteq> []" by (rule natToString_nonempty)
  have tw: "takeWhile isDigit ?s = ?s"
    using natToString_digits by (simp add: takeWhile_eq_all_conv)
  show ?thesis
    using ne by (simp add: parseInt_def isStrWhiteSpaceChar_def tw Let_def digitsValue_natToString)
qed

lemma parseInt_toString: "parseInt (toString n) = Some n"
  by (simp add: toString_def parseInt_natToString parseInt_minus_natToString)

lemma castNonNegativeInteger_eq:
  "castNonNegativeInteger n = (if 0 \<le> n then Inr n else Inl Panic)"
  by (simp add: castNonNegativeInteger_def getFromEitherC_def nonNegativeIntegerCodec_def brand_def t_Int_def)

lemma parseNonNegativeInteger_toString:
  "parseNonNegativeInteger (toString n) = (if 0 \<le> n then Inr n else Inl Panic)"
  by (simp add: parseNonNegativeInteger_def parseInt_toString castNonNegativeInteger_eq)

lemma parseNonNegativeInteger_Inr_iff:
  "parseNonNegativeInteger s = Inr n \<longleftrightarrow> 0 \<le> n \<and> s = toString n"
proof
  assume "parseNonNegativeInteger s = Inr n"
  then show "0 \<le> n \<and> s = toString n"
    by (auto simp: parseNonNegativeInteger_def castNonNegativeInteger_eq split: option.splits if_splits)
next
  assume "0 \<le> n \<and> s = toString n"
  then show "parseNonNegativeInteger s = Inr n"
    by (simp add: parseNonNegativeInteger_toString)
qed

lemma parseNonNegativeInteger_Inl_iff:
  "(\<exists>e. parseNonNegativeInteger s = Inl e) \<longleftrightarrow> (\<forall>m. 0 \<le> m \<longrightarrow> s \<noteq> toString m)"
proof (cases "parseNonNegativeInteger s")
  case (Inl e)
  then have "\<And>m. \<not> (0 \<le> m \<and> s = toString m)"
    using parseNonNegativeInteger_Inr_iff [of s] by simp
  with Inl show ?thesis by auto
next
  case (Inr n)
  then have "0 \<le> n \<and> s = toString n" by (simp add: parseNonNegativeInteger_Inr_iff)
  with Inr show ?thesis by auto
qed

text \<open>A string of at most 15 characters reads as a safe integer, if it reads as one at all.\<close>

lemma digitValue_le: "isDigit c \<Longrightarrow> digitValue c \<le> 9"
  by (auto simp: isDigit_def digitValue_def)

lemma digitsValue_less: "\<forall>c\<in>set ds. isDigit c \<Longrightarrow> digitsValue ds < 10 ^ length ds"
proof (induction ds rule: rev_induct)
  case Nil
  show ?case by (simp add: digitsValue_def)
next
  case (snoc c ds)
  then have "digitsValue ds < 10 ^ length ds" and "digitValue c \<le> 9"
    by (simp_all add: digitValue_le)
  then have "10 * digitsValue ds + digitValue c < 10 * 10 ^ length ds" by linarith
  then show ?case by (simp add: digitsValue_snoc)
qed

lemma parseInt_bound:
  assumes "parseInt s = Some n"
  shows "\<bar>n\<bar> < 10 ^ length s"
proof -
  define s1 where "s1 = dropWhile isStrWhiteSpaceChar s"
  define s2 where "s2 = (if s1 \<noteq> [] \<and> (hd s1 = CHR ''-'' \<or> hd s1 = CHR ''+'') then tl s1 else s1)"
  define ds where "ds = takeWhile isDigit s2"
  have l1: "length s1 \<le> length s" unfolding s1_def by (rule length_dropWhile_le)
  have l2: "length s2 \<le> length s1" unfolding s2_def by simp
  have l3: "length ds \<le> length s2" unfolding ds_def by (rule length_takeWhile_le)
  have dg: "\<forall>c\<in>set ds. isDigit c" unfolding ds_def by (auto dest: set_takeWhileD)
  have n: "\<bar>n\<bar> = int (digitsValue ds)"
    using assms unfolding parseInt_def Let_def s1_def [symmetric] s2_def [symmetric] ds_def [symmetric]
    by (auto split: if_splits)
  have "digitsValue ds < 10 ^ length ds" by (rule digitsValue_less [OF dg])
  also have "\<dots> \<le> 10 ^ length s"
    using l1 l2 l3 by (intro power_increasing) simp_all
  finally have "int (digitsValue ds) < int (10 ^ length s)" by (simp only: of_nat_less_iff)
  with n show ?thesis by simp
qed

lemma inSafeRange_short:
  assumes "length s \<le> 15"
  shows "inSafeRange s"
proof (cases "parseInt s")
  case None
  then show ?thesis by (simp add: inSafeRange_def)
next
  case (Some n)
  have "\<bar>n\<bar> < 10 ^ length s" by (rule parseInt_bound [OF Some])
  also have "(10 :: int) ^ length s \<le> 10 ^ 15"
    using assms by (intro power_increasing) simp_all
  finally have "\<bar>n\<bar> \<le> MAX_SAFE_INTEGER" by (simp add: MAX_SAFE_INTEGER_def)
  with Some show ?thesis by (simp add: inSafeRange_def isSafeInteger_def)
qed

lemma inSafeRange_toString: "inSafeRange (toString n) \<longleftrightarrow> isSafeInteger n"
  by (simp add: inSafeRange_def parseInt_toString)

lemma length_natToString_le: "n < 10 ^ k \<Longrightarrow> 0 < k \<Longrightarrow> length (natToString n) \<le> k"
proof (induction n arbitrary: k rule: natToString.induct)
  case (1 n)
  show ?case
  proof (cases "n < 10")
    case True
    with "1.prems" show ?thesis by (subst natToString.simps) simp
  next
    case False
    with "1.prems" have k: "1 < k" by (cases k; cases "k - 1") auto
    then obtain j where j: "k = Suc j" "0 < j" by (cases k) auto
    from "1.prems" j have "n div 10 < 10 ^ j" by (simp add: less_mult_imp_div_less mult.commute)
    with "1.IH" False j have "length (natToString (n div 10)) \<le> j" by simp
    with False j show ?thesis by (subst natToString.simps) simp
  qed
qed

lemma length_natToString_gt: "10 ^ k \<le> n \<Longrightarrow> k < length (natToString n)"
proof (induction n arbitrary: k rule: natToString.induct)
  case (1 n)
  show ?case
  proof (cases "n < 10")
    case True
    have "k = 0"
    proof (rule ccontr)
      assume "k \<noteq> 0"
      then have "(10::nat) ^ 1 \<le> 10 ^ k" by (intro power_increasing) auto
      with True "1.prems" show False by simp
    qed
    then show ?thesis using natToString_nonempty [of n] by (cases "natToString n") auto
  next
    case False
    show ?thesis
    proof (cases k)
      case 0
      then show ?thesis using natToString_nonempty [of n] by (cases "natToString n") auto
    next
      case (Suc j)
      with "1.prems" have "10 ^ j \<le> n div 10" by (simp add: less_eq_div_iff_mult_less_eq mult.commute)
      with "1.IH" False have "j < length (natToString (n div 10))" by simp
      with False Suc show ?thesis by (subst natToString.simps) simp
    qed
  qed
qed

section \<open>Hexadecimal strings, splitting, bytes\<close>

lemma unat_low_nibble: "unat ((b::byte) AND 15) = unat b mod 16"
proof -
  have "(15::byte) = mask 4" by (simp add: mask_eq_exp_minus_1)
  then have "unat (b AND 15) = unat (take_bit 4 b)" by (simp add: take_bit_eq_mask)
  also have "\<dots> = unat b mod 16" by (simp add: unsigned_take_bit_eq take_bit_eq_mod unat_mod_distrib)
  finally show ?thesis .
qed

lemma unat_high_nibble: "unat (drop_bit 4 (b::byte)) = unat b div 16"
  by (simp add: unat_drop_bit_eq drop_bit_eq_div unat_div_distrib)

lemma unat_byte_less: "unat (b::byte) < 256"
  using unsigned_less [of b] by simp

lemma nibble_cases: "n < 16 \<Longrightarrow> n \<in> {0, 1, 2, 3, 4, 5, 6, 7, 8, 9, 10, 11, 12, 13, 14, 15 :: nat}"
  by simp arith

lemma unhex_hexDigits: "n < 16 \<Longrightarrow> unhex (hexDigits ! n) = Some n"
  using nibble_cases [of n] by (auto simp: unhex_def hexDigits_def)

lemma hexDigits_no_colon: "n < 16 \<Longrightarrow> hexDigits ! n \<noteq> CHR '':''"
  using nibble_cases [of n] by (auto simp: hexDigits_def)

lemma length_hexDigits: "length hexDigits = 16"
  by (simp add: hexDigits_def)

lemma hexDigits_mem: "n < 16 \<Longrightarrow> hexDigits ! n \<in> set hexDigits"
  by (simp add: length_hexDigits)

lemma nibbles_less: "unat (drop_bit 4 (b::byte)) < 16" "unat ((b::byte) AND 15) < 16"
  using unat_byte_less [of b] by (simp_all add: unat_low_nibble unat_high_nibble)

lemma byte_of_nibbles: "word_of_nat (16 * unat (drop_bit 4 b) + unat (b AND 15)) = (b::byte)"
proof -
  have "16 * unat (drop_bit 4 b) + unat (b AND 15) = unat b"
    unfolding unat_low_nibble unat_high_nibble by (rule mult_div_mod_eq)
  then have "word_of_nat (16 * unat (drop_bit 4 b) + unat (b AND 15)) = (word_of_nat (unat b) :: byte)"
    by (simp only:)
  also have "\<dots> = b" by simp
  finally show ?thesis .
qed

lemma byte_of_nibbles_word: "16 * drop_bit 4 b + (b AND 15) = (b::byte)"
  using byte_of_nibbles [of b] by simp

lemma fromHex_hexByte: "fromHex (hexByte b @ rest) = b # fromHex rest"
  by (simp add: hexByte_def unhex_hexDigits nibbles_less byte_of_nibbles_word)

lemma fromHex_toHex: "fromHex (toHex buf) = buf"
  by (induction buf) (simp_all add: toHex_def fromHex_hexByte)

lemma fromHex_toHex_append: "fromHex (toHex buf @ toHex buf') = buf @ buf'"
proof -
  have "toHex buf @ toHex buf' = toHex (buf @ buf')" by (simp add: toHex_def)
  then show ?thesis by (simp only: fromHex_toHex)
qed

lemma length_fromHex: "2 * length (fromHex s) \<le> length s"
  by (induction s rule: fromHex.induct) (auto split: option.splits)

lemma length_toHex: "length (toHex buf) = 2 * length buf"
  by (induction buf) (simp_all add: toHex_def hexByte_def)

lemma toHex_append: "toHex (a @ b) = toHex a @ toHex b"
  by (simp add: toHex_def)

lemma set_toHex: "set (toHex buf) \<subseteq> set hexDigits"
  by (induction buf) (auto simp: toHex_def hexByte_def hexDigits_mem nibbles_less)

lemma colon_notin_hexDigits: "CHR '':'' \<notin> set hexDigits"
  by (simp add: hexDigits_def)

lemma colon_notin_toHex: "CHR '':'' \<notin> set (toHex buf)"
  using set_toHex [of buf] colon_notin_hexDigits by blast

lemma split_no_sep: "sep \<notin> set s \<Longrightarrow> split sep s = [s]"
  by (induction s) auto

lemma split_append: "sep \<notin> set a \<Longrightarrow> split sep (a @ sep # b) = a # split sep b"
  by (induction a) auto

lemma split_nonempty: "split sep s \<noteq> []"
  by (induction s) (auto split: list.splits)

lemma unat_of_char: "unat (of_char c :: byte) = of_char c"
proof -
  have "unat (of_char c :: byte) = unat (of_nat (of_char c) :: byte)"
    by (simp only: of_nat_of_char)
  also have "\<dots> = of_char c mod 256" by (simp add: unat_of_nat)
  finally show ?thesis by (simp add: of_char_mod_256)
qed

lemma utf8_roundtrip: "utf8Decode (utf8Encode s) = s"
  by (induction s) (simp_all add: utf8Decode_def utf8Encode_def unat_of_char)

lemma length_utf8Encode: "length (utf8Encode s) = length s"
  by (simp add: utf8Encode_def)

subsection \<open>Random draws\<close>

lemma randNLoop_fst_length: "length (fst (randNLoop nxt k rng)) = k"
  by (induction k arbitrary: rng) (simp_all add: split_beta Let_def)

lemma step_funpow:
  "((\<lambda>g. snd (nxt g)) ^^ k) (snd (nxt rng)) = snd (nxt (((\<lambda>g. snd (nxt g)) ^^ k) rng))"
  using funpow_swap1 [of "\<lambda>g. snd (nxt g)" k rng] by simp

lemma randNLoop_snd: "snd (randNLoop nxt k rng) = ((\<lambda>g. snd (nxt g)) ^^ k) rng"
  by (induction k arbitrary: rng) (simp_all add: split_beta Let_def step_funpow)

lemma randNLoop_fst:
  "fst (randNLoop nxt k rng) = map (\<lambda>i. fst (nxt (((\<lambda>g. snd (nxt g)) ^^ i) rng))) [0..<k]"
proof (induction k arbitrary: rng)
  case 0
  then show ?case by simp
next
  case (Suc k)
  have "map (\<lambda>i. fst (nxt (((\<lambda>g. snd (nxt g)) ^^ i) rng))) [0..<Suc k]
      = fst (nxt rng) # map (\<lambda>i. fst (nxt (((\<lambda>g. snd (nxt g)) ^^ Suc i) rng))) [0..<k]"
    by (simp only: upt_conv_Cons [of 0 "Suc k"] map_Suc_upt [symmetric]) (simp add: comp_def)
  also have "\<dots> = fst (nxt rng) # fst (randNLoop nxt k (snd (nxt rng)))"
    by (simp add: Suc.IH step_funpow)
  finally show ?case by (simp add: split_beta Let_def)
qed

lemma randNLoop_add:
  "randNLoop nxt (j + k) rng =
     (fst (randNLoop nxt j rng) @ fst (randNLoop nxt k (snd (randNLoop nxt j rng))),
      snd (randNLoop nxt k (snd (randNLoop nxt j rng))))"
  by (induction j arbitrary: rng) (simp_all add: split_beta Let_def)

section \<open>Chaining and padding\<close>

lemma length_xorBytes: "length (xorBytes a b) = min (length a) (length b)"
  by (simp add: xorBytes_def)

lemma xorBytes_cancel: "length a \<le> length b \<Longrightarrow> xorBytes (xorBytes a b) b = a"
proof (induction a arbitrary: b)
  case Nil
  then show ?case by (simp add: xorBytes_def)
next
  case (Cons x a)
  then obtain y b' where "b = y # b'" by (cases b) auto
  with Cons show ?case by (simp add: xorBytes_def xor.assoc)
qed

lemma div16_step: "16 \<le> (n::nat) \<Longrightarrow> n div 16 * 16 = 16 + (n - 16) div 16 * 16"
  by (simp add: le_div_geq)

lemma cbcEncrypt_short: "length data < 16 \<Longrightarrow> cbcEncrypt E key chain data = ([], chain)"
  by (subst cbcEncrypt.simps) simp

lemma cbcEncrypt_step:
  "16 \<le> length data \<Longrightarrow>
   cbcEncrypt E key chain data =
     (E key (xorBytes (take 16 data) chain) @
        fst (cbcEncrypt E key (E key (xorBytes (take 16 data) chain)) (drop 16 data)),
      snd (cbcEncrypt E key (E key (xorBytes (take 16 data) chain)) (drop 16 data)))"
  by (subst cbcEncrypt.simps) (simp add: Let_def split_beta)

lemma cbcDecrypt_short: "length data < 16 \<Longrightarrow> cbcDecrypt D key chain data = ([], chain)"
  by (subst cbcDecrypt.simps) simp

lemma cbcDecrypt_step:
  "16 \<le> length data \<Longrightarrow>
   cbcDecrypt D key chain data =
     (xorBytes (D key (take 16 data)) chain @ fst (cbcDecrypt D key (take 16 data) (drop 16 data)),
      snd (cbcDecrypt D key (take 16 data) (drop 16 data)))"
  by (subst cbcDecrypt.simps) (simp add: Let_def split_beta)

lemma cbcEncrypt_append:
  "length a = 16 * m \<Longrightarrow>
   cbcEncrypt E key chain (a @ b) =
     (fst (cbcEncrypt E key chain a) @ fst (cbcEncrypt E key (snd (cbcEncrypt E key chain a)) b),
      snd (cbcEncrypt E key (snd (cbcEncrypt E key chain a)) b))"
proof (induction m arbitrary: a chain)
  case 0
  then show ?case by (simp add: cbcEncrypt_short)
next
  case (Suc m)
  then have len: "16 \<le> length a" "16 \<le> length (a @ b)" by simp_all
  have d: "length (drop 16 a) = 16 * m" using Suc.prems by simp
  have t: "take 16 (a @ b) = take 16 a" "drop 16 (a @ b) = drop 16 a @ b" using len by simp_all
  show ?case
    by (simp only: cbcEncrypt_step [OF len(1)] cbcEncrypt_step [OF len(2)] t Suc.IH [OF d]) simp
qed

lemma cbcDecrypt_append:
  "length a = 16 * m \<Longrightarrow>
   cbcDecrypt D key chain (a @ b) =
     (fst (cbcDecrypt D key chain a) @ fst (cbcDecrypt D key (snd (cbcDecrypt D key chain a)) b),
      snd (cbcDecrypt D key (snd (cbcDecrypt D key chain a)) b))"
proof (induction m arbitrary: a chain)
  case 0
  then show ?case by (simp add: cbcDecrypt_short)
next
  case (Suc m)
  then have len: "16 \<le> length a" "16 \<le> length (a @ b)" by simp_all
  have d: "length (drop 16 a) = 16 * m" using Suc.prems by simp
  have t: "take 16 (a @ b) = take 16 a" "drop 16 (a @ b) = drop 16 a @ b" using len by simp_all
  show ?case
    by (simp only: cbcDecrypt_step [OF len(1)] cbcDecrypt_step [OF len(2)] t Suc.IH [OF d]) simp
qed

lemma length_cbcEncrypt:
  "blockSized E \<Longrightarrow> length key = 16 \<Longrightarrow> length chain = 16 \<Longrightarrow>
   length (fst (cbcEncrypt E key chain data)) = length data div 16 * 16
   \<and> length (snd (cbcEncrypt E key chain data)) = 16"
proof (induction E key chain data rule: cbcEncrypt.induct)
  case (1 E key chain data)
  show ?case
  proof (cases "length data < 16")
    case True
    with "1.prems" show ?thesis by (simp add: cbcEncrypt_short)
  next
    case False
    let ?c = "E key (xorBytes (take 16 data) chain)"
    have lc: "length ?c = 16"
      using "1.prems" False by (simp add: blockSized_def length_xorBytes)
    have ih: "length (fst (cbcEncrypt E key ?c (drop 16 data))) = length (drop 16 data) div 16 * 16
        \<and> length (snd (cbcEncrypt E key ?c (drop 16 data))) = 16"
      using "1.IH" [OF False refl "1.prems"(1,2) lc] .
    from False have "16 \<le> length data" by simp
    from cbcEncrypt_step [OF this] ih lc False show ?thesis
      by (simp add: div16_step)
  qed
qed

lemma length_cbcDecrypt:
  "blockSized D \<Longrightarrow> length key = 16 \<Longrightarrow> length chain = 16 \<Longrightarrow>
   length (fst (cbcDecrypt D key chain data)) = length data div 16 * 16
   \<and> length (snd (cbcDecrypt D key chain data)) = 16"
proof (induction D key chain data rule: cbcDecrypt.induct)
  case (1 D key chain data)
  show ?case
  proof (cases "length data < 16")
    case True
    with "1.prems" show ?thesis by (simp add: cbcDecrypt_short)
  next
    case False
    let ?c = "take 16 data"
    have lc: "length ?c = 16" using False by simp
    have lp: "length (xorBytes (D key ?c) chain) = 16"
      using "1.prems" False by (simp add: blockSized_def length_xorBytes)
    have ih: "length (fst (cbcDecrypt D key ?c (drop 16 data))) = length (drop 16 data) div 16 * 16
        \<and> length (snd (cbcDecrypt D key ?c (drop 16 data))) = 16"
      using "1.IH" [OF False refl refl "1.prems"(1,2) lc] .
    from False have "16 \<le> length data" by simp
    from cbcDecrypt_step [OF this] ih lp False show ?thesis
      by (simp add: div16_step)
  qed
qed

lemma cbc_roundtrip:
  "blockCipherPair E D \<Longrightarrow> length key = 16 \<Longrightarrow> length chain = 16 \<Longrightarrow>
   fst (cbcDecrypt D key chain (fst (cbcEncrypt E key chain data))) = take (length data div 16 * 16) data"
proof (induction E key chain data rule: cbcEncrypt.induct)
  case (1 E key chain data)
  show ?case
  proof (cases "length data < 16")
    case True
    then show ?thesis by (simp add: cbcEncrypt_short cbcDecrypt_short)
  next
    case False
    let ?x = "xorBytes (take 16 data) chain"
    let ?c = "E key ?x"
    let ?rest = "fst (cbcEncrypt E key ?c (drop 16 data))"
    have lx: "length ?x = 16" using "1.prems" False by (simp add: length_xorBytes)
    have lc: "length ?c = 16" and dc: "D key ?c = ?x"
      using "1.prems" lx by (simp_all add: blockCipherPair_def blockSized_def)
    have ih: "fst (cbcDecrypt D key ?c ?rest) = take (length (drop 16 data) div 16 * 16) (drop 16 data)"
      using "1.IH" [OF False refl "1.prems"(1,2) lc] .
    from False have ge: "16 \<le> length data" by simp
    have enc: "fst (cbcEncrypt E key chain data) = ?c @ ?rest"
      by (simp add: cbcEncrypt_step [OF ge])
    have "fst (cbcDecrypt D key chain (?c @ ?rest)) = xorBytes (D key ?c) chain @ fst (cbcDecrypt D key ?c ?rest)"
      using lc by (subst cbcDecrypt_step) simp_all
    also have "xorBytes (D key ?c) chain = take 16 data"
      using "1.prems" False by (simp add: dc xorBytes_cancel)
    finally have "fst (cbcDecrypt D key chain (?c @ ?rest))
        = take 16 data @ take (length (drop 16 data) div 16 * 16) (drop 16 data)"
      by (simp add: ih)
    also have "\<dots> = take (length data div 16 * 16) data"
    proof -
      have "length data div 16 * 16 = 16 + (length data - 16) div 16 * 16"
        using ge by (rule div16_step)
      then show ?thesis by (simp add: take_add)
    qed
    finally show ?thesis by (simp only: enc)
  qed
qed

lemma length_pkcs7pad: "length (pkcs7pad buf) = (length buf div 16 + 1) * 16"
proof -
  have "length buf = length buf div 16 * 16 + length buf mod 16" by simp
  moreover have "length buf mod 16 < 16" by simp
  ultimately show ?thesis by (simp add: pkcs7pad_def Let_def) arith
qed

lemma pkcs7pad_split:
  "pkcs7pad buf = take (length buf div 16 * 16) buf @ pkcs7pad (drop (length buf div 16 * 16) buf)"
proof -
  have "length buf - length buf div 16 * 16 = length buf mod 16"
    by (simp add: minus_div_mult_eq_mod)
  then show ?thesis by (simp add: pkcs7pad_def Let_def)
qed

lemma pkcs7unpad_block:
  assumes "length r = 16 - k" "1 \<le> k" "k \<le> 16"
  shows "pkcs7unpad (r @ replicate k (of_nat k)) = Inr r"
proof -
  have u: "unat (of_nat k :: byte) = k" using assms by (simp add: unat_of_nat)
  have l: "last (r @ replicate k (of_nat k :: byte)) = of_nat k" using assms by simp
  show ?thesis using assms by (simp add: pkcs7unpad_def l u Let_def)
qed

lemma pkcs7unpad_pad:
  "pkcs7unpad (drop (length (pkcs7pad buf) - 16) (pkcs7pad buf)) = Inr (drop (length buf div 16 * 16) buf)"
proof -
  let ?n = "length buf div 16 * 16"
  let ?k = "16 - length buf mod 16"
  have n: "length (pkcs7pad buf) - 16 = ?n" by (simp add: length_pkcs7pad)
  have le: "?n \<le> length buf" by simp
  have "drop ?n (pkcs7pad buf) = drop ?n buf @ replicate ?k (of_nat ?k)"
    using le by (simp add: pkcs7pad_def Let_def)
  moreover have "length (drop ?n buf) = 16 - ?k"
    by (simp add: minus_div_mult_eq_mod)
  moreover have "1 \<le> ?k" "?k \<le> 16" by simp_all
  ultimately show ?thesis by (simp only: n pkcs7unpad_block)
qed

lemma take_pkcs7pad:
  "take (length (pkcs7pad buf) - 16) (pkcs7pad buf) = take (length buf div 16 * 16) buf"
proof -
  have n: "length (pkcs7pad buf) - 16 = length buf div 16 * 16" by (simp add: length_pkcs7pad)
  show ?thesis unfolding n by (simp add: pkcs7pad_def Let_def)
qed

lemma blockCipherPair_blockSized: "blockCipherPair E D \<Longrightarrow> blockSized E"
  by (simp add: blockCipherPair_def)

lemma blockCipherPair_blockSized_D: "blockCipherPair E D \<Longrightarrow> blockSized D"
  by (simp add: blockCipherPair_def)

lemma cipher_stream:
  "fst (cipherUpdate E \<lparr>cipherKey = key, cipherChain = iv, cipherPending = []\<rparr> data)
     @ cipherFinal E (snd (cipherUpdate E \<lparr>cipherKey = key, cipherChain = iv, cipherPending = []\<rparr> data))
   = fst (cbcEncrypt E key iv (pkcs7pad data))"
proof -
  let ?n = "length data div 16 * 16"
  have la: "length (take ?n data) = 16 * (length data div 16)" by simp
  have "fst (cbcEncrypt E key iv (pkcs7pad data))
      = fst (cbcEncrypt E key iv (take ?n data @ pkcs7pad (drop ?n data)))"
    using pkcs7pad_split [of data] by simp
  also have "\<dots> = fst (cbcEncrypt E key iv (take ?n data))
      @ fst (cbcEncrypt E key (snd (cbcEncrypt E key iv (take ?n data))) (pkcs7pad (drop ?n data)))"
    by (simp add: cbcEncrypt_append [OF la])
  finally show ?thesis
    by (simp add: cipherUpdate_def cipherFinal_def Let_def split_beta)
qed

lemma decipher_stream:
  assumes "blockSized D" "length key = 16" "length iv = 16"
  shows "(case decipherFinal D (snd (decipherUpdate D \<lparr>cipherKey = key, cipherChain = iv, cipherPending = []\<rparr> ct)) of
            Inl e \<Rightarrow> Inl e
          | Inr out2 \<Rightarrow> Inr (fst (decipherUpdate D \<lparr>cipherKey = key, cipherChain = iv, cipherPending = []\<rparr> ct) @ out2))
         = aes128cbcDecrypt D key iv ct"
proof (cases "length ct mod 16 = 0")
  case False
  then have "length ct - length ct div 16 * 16 \<noteq> 16"
    by (simp add: minus_div_mult_eq_mod)
  with False assms show ?thesis
    by (auto simp: decipherUpdate_def decipherFinal_def aes128cbcDecrypt_def Let_def split_beta)
next
  case True
  show ?thesis
  proof (cases "ct = []")
    case True
    with assms show ?thesis
      by (simp add: decipherUpdate_def decipherFinal_def aes128cbcDecrypt_def Let_def split_beta)
  next
    case False
    with True have ge: "16 \<le> length ct" by (cases "length ct < 16") auto
    let ?n = "length ct - 16"
    from True have full: "length ct div 16 * 16 = length ct" by auto
    have nm: "?n mod 16 = 0" using True ge by (simp add: le_mod_geq)
    then obtain m where m: "?n = 16 * m" by auto
    have la: "length (take ?n ct) = 16 * m" using m by simp
    have lo: "length (fst (cbcDecrypt D key iv (take ?n ct))) = ?n"
      using length_cbcDecrypt [OF assms, of "take ?n ct"] m by simp
    have lp: "length (drop ?n ct) = 16" using ge by simp
    have whole: "fst (cbcDecrypt D key iv ct)
        = fst (cbcDecrypt D key iv (take ?n ct))
          @ fst (cbcDecrypt D key (snd (cbcDecrypt D key iv (take ?n ct))) (drop ?n ct))"
      using cbcDecrypt_append [OF la, of D key iv "drop ?n ct"] by simp
    show ?thesis
      using True False assms lp
      by (simp add: decipherUpdate_def decipherFinal_def aes128cbcDecrypt_def Let_def split_beta
          full whole lo split: sum.splits)
  qed
qed

lemma aes128cbc_roundtrip:
  assumes "blockCipherPair E D" "length key = 16" "length iv = 16"
  shows "aes128cbcDecrypt D key iv (fst (cbcEncrypt E key iv (pkcs7pad pt))) = Inr pt"
proof -
  let ?P = "pkcs7pad pt"
  let ?C = "fst (cbcEncrypt E key iv ?P)"
  have lP: "length ?P = (length pt div 16 + 1) * 16" by (rule length_pkcs7pad)
  have lC: "length ?C = length ?P"
    using length_cbcEncrypt [OF blockCipherPair_blockSized [OF assms(1)] assms(2,3), of ?P] lP
    by simp
  have ne: "?C \<noteq> []" using lC lP by auto
  have m: "length ?C mod 16 = 0" using lC lP by simp
  have dec: "fst (cbcDecrypt D key iv ?C) = ?P"
    using cbc_roundtrip [OF assms, of ?P] lP by simp
  have "take (length ?P - 16) ?P @ drop (length pt div 16 * 16) pt = pt"
    by (simp add: take_pkcs7pad)
  then show ?thesis
    using assms(2,3) ne m
    by (simp add: aes128cbcDecrypt_def Let_def dec lC pkcs7unpad_pad)
qed

text \<open>
  The decryption as one operation, with its checks spelled out: it fails on a key or a vector
  that is not 16 bytes, on a ciphertext that is empty or not a whole number of blocks, and on
  decrypted bytes that are not well padded; otherwise it gives the decrypted bytes without
  their padding.
\<close>

lemma aes128cbcDecrypt_explicit:
  assumes "blockSized D"
  shows "aes128cbcDecrypt D key iv ct =
     (if length key \<noteq> 16 \<or> length iv \<noteq> 16 \<or> ct = [] \<or> length ct mod 16 \<noteq> 0
         \<or> \<not> wellPadded (fst (cbcDecrypt D key iv ct))
      then Inl CryptoError
      else Inr (unpadded (fst (cbcDecrypt D key iv ct))))"
proof (cases "length key \<noteq> 16 \<or> length iv \<noteq> 16 \<or> ct = [] \<or> length ct mod 16 \<noteq> 0")
  case True
  then show ?thesis by (auto simp: aes128cbcDecrypt_def)
next
  case False
  then have k: "length key = 16" "length iv = 16" and ne: "ct \<noteq> []" and m: "length ct mod 16 = 0"
    by simp_all
  let ?p = "fst (cbcDecrypt D key iv ct)"
  let ?n = "unat (last ?p)"
  let ?b = "drop (length ct - 16) ?p"
  from ne m have ge: "16 \<le> length ct" by (cases "length ct < 16") auto
  from m have full: "length ct div 16 * 16 = length ct" by auto
  have lp: "length ?p = length ct"
    using length_cbcDecrypt [OF assms k, of ct] full by simp
  have pne: "?p \<noteq> []" using lp ge by auto
  have lb: "last ?b = last ?p" using lp ge by (simp add: last_drop)
  have w: "(of_nat ?n :: byte) = last ?p" by simp
  have dd: "?n \<le> 16 \<Longrightarrow> drop (16 - ?n) ?b = drop (length ?p - ?n) ?p"
    using lp ge by (simp add: add.commute)
  have tt: "?n \<le> 16 \<Longrightarrow> take (length ct - 16) ?p @ take (16 - ?n) ?b = take (length ?p - ?n) ?p"
  proof -
    assume le: "?n \<le> 16"
    have "take ((length ct - 16) + (16 - ?n)) ?p
        = take (length ct - 16) ?p @ take (16 - ?n) (drop (length ct - 16) ?p)"
      by (rule take_add)
    moreover have "(length ct - 16) + (16 - ?n) = length ?p - ?n" using le ge lp by simp
    ultimately show ?thesis by simp
  qed
  show ?thesis
  proof (cases "?n = 0 \<or> 16 < ?n")
    case True
    then show ?thesis
      using k ne m pne by (auto simp: aes128cbcDecrypt_def pkcs7unpad_def wellPadded_def Let_def lb)
  next
    case False
    then have le: "?n \<le> 16" and pos: "1 \<le> ?n" by simp_all
    show ?thesis
      using k ne m pne pos le dd [OF le] tt [OF le]
      by (simp add: aes128cbcDecrypt_def pkcs7unpad_def wellPadded_def unpadded_def Let_def lb)
  qed
qed

section \<open>The two operations in one piece\<close>

lemma randN_16: "randN nxt 16 rng = (drawn nxt 16 rng, advanced nxt 16 rng)"
  by (simp add: randN_def drawn_def advanced_def prod_eq_iff randNLoop_fst randNLoop_snd)

lemma length_drawn: "length (drawn nxt k rng) = k"
  by (simp add: drawn_def)

lemma advanced_add: "advanced nxt j (advanced nxt k rng) = advanced nxt (j + k) rng"
  by (simp add: advanced_def funpow_add)

lemma drawn_add: "drawn nxt (j + k) rng = drawn nxt j rng @ drawn nxt k (advanced nxt j rng)"
proof -
  have "drawn nxt (j + k) rng = fst (randNLoop nxt (j + k) rng)"
    by (simp add: drawn_def randNLoop_fst)
  also have "\<dots> = fst (randNLoop nxt j rng) @ fst (randNLoop nxt k (snd (randNLoop nxt j rng)))"
    by (simp add: randNLoop_add)
  finally show ?thesis
    by (simp add: drawn_def advanced_def randNLoop_fst randNLoop_snd)
qed

lemma castEncodedTimestampEncryptedPart_eq:
  "castEncodedTimestampEncryptedPart s =
     (if length s = 32 then Inr s else Inl (DecodeFailure ''EncodedTimestampEncryptedPart''))"
  by (simp add: castEncodedTimestampEncryptedPart_def castEitherC_def getFromEitherC_def
      encodedTimestampEncryptedPartCodec_def brand_def NonEmptyString_def)

lemma castIV_eq: "castIV s = (if length s = 32 then Inr s else Inl (DecodeFailure ''IV''))"
  by (simp add: castIV_def castEitherC_def getFromEitherC_def ivCodec_def brand_def
      NonEmptyString_def BYTE_RESTRICTION_def)

lemma length_Buffer_from: "length (Buffer_from ns) = length ns"
  by (simp add: Buffer_from_def)

lemma createChallenge_eq:
  "createChallenge nxt E t rng =
     (let key = Buffer_from (drawn nxt 16 rng);
          iv = Buffer_from (drawn nxt 16 (advanced nxt 16 rng));
          encoded = toHex (fst (cbcEncrypt E key iv (pkcs7pad (utf8Encode (toString t)))))
      in if length encoded = 32
         then Inr (\<lparr>encodedTimestamp = encoded @ '':'' @ toHex iv, secretKey = key\<rparr>,
                   advanced nxt 32 rng)
         else Inl (DecodeFailure ''EncodedTimestampEncryptedPart''))"
proof -
  let ?key = "Buffer_from (drawn nxt 16 rng)"
  let ?iv = "Buffer_from (drawn nxt 16 (advanced nxt 16 rng))"
  let ?cipher = "\<lparr>cipherKey = ?key, cipherChain = ?iv, cipherPending = []\<rparr>"
  let ?pt = "utf8Encode (toString t)"
  have c: "createCipheriv ?key ?iv = Inr ?cipher"
    by (simp add: createCipheriv_def length_Buffer_from length_drawn)
  have enc: "toHex (fst (cipherUpdate E ?cipher ?pt)) @ toHex (cipherFinal E (snd (cipherUpdate E ?cipher ?pt)))
      = toHex (fst (cbcEncrypt E ?key ?iv (pkcs7pad ?pt)))"
    by (simp only: toHex_append [symmetric] cipher_stream)
  have lenc: "length (toHex (fst (cipherUpdate E ?cipher ?pt)))
        + length (toHex (cipherFinal E (snd (cipherUpdate E ?cipher ?pt))))
      = length (toHex (fst (cbcEncrypt E ?key ?iv (pkcs7pad ?pt))))"
    using arg_cong [OF enc, of length] by simp
  have iv: "castIV (toHex ?iv) = Inr (toHex ?iv)"
    by (simp add: castIV_eq length_toHex length_Buffer_from length_drawn)
  have adv: "advanced nxt 16 (advanced nxt 16 rng) = advanced nxt 32 rng"
    by (simp add: advanced_add)
  show ?thesis
    unfolding createChallenge_def Let_def
    by (simp add: castNonNegativeInteger_eq randN_16 c split_beta enc lenc iv adv
        castEncodedTimestampEncryptedPart_eq CHALLENGE_SEPARATOR_def)
qed

lemma length_encoded:
  assumes "blockSized E" "length key = 16" "length iv = 16"
  shows "length (toHex (fst (cbcEncrypt E key iv (pkcs7pad pt)))) = 32 * (length pt div 16 + 1)"
  using length_cbcEncrypt [OF assms, of "pkcs7pad pt"]
  by (simp add: length_toHex length_pkcs7pad)

lemma decodeTimestamp_eq:
  assumes "blockSized D"
  shows "decodeTimestamp D et key =
     (case split (CHR '':'') et of
        encoded # ivHex # rest \<Rightarrow>
          if odd (length encoded) then Inl CryptoError
          else (case aes128cbcDecrypt D key (fromHex ivHex) (fromHex encoded) of
                  Inl e \<Rightarrow> Inl e
                | Inr payload \<Rightarrow> parseNonNegativeInteger (utf8Decode payload))
      | _ \<Rightarrow> Inl TypeError)"
proof (cases "split (CHR '':'') et")
  case Nil
  then show ?thesis by (simp add: decodeTimestamp_def)
next
  case (Cons encoded ps)
  show ?thesis
  proof (cases ps)
    case Nil
    with Cons show ?thesis by (simp add: decodeTimestamp_def)
  next
    case (Cons ivHex rest)
    note sp = \<open>split (CHR '':'') et = encoded # ps\<close> Cons
    show ?thesis
    proof (cases "length key = 16 \<and> length (fromHex ivHex) = 16")
      case False
      then show ?thesis
        by (auto simp: decodeTimestamp_def sp createDecipheriv_def createCipheriv_def
            aes128cbcDecrypt_def)
    next
      case True
      then have k: "length key = 16" and i: "length (fromHex ivHex) = 16" by simp_all
      let ?d = "\<lparr>cipherKey = key, cipherChain = fromHex ivHex, cipherPending = []\<rparr>"
      have st: "(case decipherFinal D (snd (decipherUpdate D ?d (fromHex encoded))) of
            Inl e \<Rightarrow> Inl e
          | Inr out2 \<Rightarrow> Inr (fst (decipherUpdate D ?d (fromHex encoded)) @ out2))
         = aes128cbcDecrypt D key (fromHex ivHex) (fromHex encoded)"
        by (rule decipher_stream [OF assms k i])
      have cd: "createDecipheriv key (fromHex ivHex) = Inr ?d"
        using k i by (simp add: createDecipheriv_def createCipheriv_def)
      show ?thesis
      proof (cases "odd (length encoded)")
        case True
        then show ?thesis
          by (simp add: decodeTimestamp_def sp cd decipherUpdateHex_def)
      next
        case False
        have u: "utf8Decode a @ utf8Decode b = utf8Decode (a @ b)" for a b
          by (simp add: utf8Decode_def)
        show ?thesis
          using False
          by (simp add: decodeTimestamp_def sp cd decipherUpdateHex_def split_beta u
              st [symmetric] split: sum.splits)
      qed
    qed
  qed
qed

lemma decodeTimestamp_explicit:
  assumes "blockSized D" and "split (CHR '':'') et = encoded # ivHex # rest"
  shows "decodeTimestamp D et key =
     (if odd (length encoded) \<or> length key \<noteq> 16 \<or> length (fromHex ivHex) \<noteq> 16
         \<or> fromHex encoded = [] \<or> length (fromHex encoded) mod 16 \<noteq> 0
         \<or> \<not> wellPadded (decryptedBlocks D key ivHex encoded)
      then Inl CryptoError
      else parseNonNegativeInteger (utf8Decode (unpadded (decryptedBlocks D key ivHex encoded))))"
  by (simp add: decodeTimestamp_eq [OF assms(1)] assms(2) aes128cbcDecrypt_explicit [OF assms(1)]
      decryptedBlocks_def)

text \<open>
  A first part of at most 32 characters is at most one block, so its payload has at most 15
  characters.
\<close>

lemma payloadInSafeRange_oneBlock:
  assumes "blockSized D" and "length (hd (split (CHR '':'') et)) \<le> 32"
  shows "payloadInSafeRange D et key"
proof (cases "split (CHR '':'') et")
  case Nil
  then show ?thesis by (simp add: payloadInSafeRange_def)
next
  case (Cons encoded ps)
  note c1 = Cons
  show ?thesis
  proof (cases ps)
    case Nil
    with c1 show ?thesis by (simp add: payloadInSafeRange_def)
  next
    case (Cons ivHex rest)
    with c1 have sp: "split (CHR '':'') et = encoded # ivHex # rest" by simp
    let ?p = "decryptedBlocks D key ivHex encoded"
    have "inSafeRange (utf8Decode (unpadded ?p))"
      if k: "length key = 16" "length (fromHex ivHex) = 16" and wp: "wellPadded ?p"
    proof -
      have "2 * length (fromHex encoded) \<le> 32"
        using length_fromHex [of encoded] assms(2) sp by simp
      then have lc: "length (fromHex encoded) \<le> 16" by simp
      have "length ?p = length (fromHex encoded) div 16 * 16"
        unfolding decryptedBlocks_def
        using length_cbcDecrypt [OF assms(1) k, of "fromHex encoded"] by simp
      with lc have lp: "length ?p \<le> 16"
        by (cases "length (fromHex encoded) = 16") simp_all
      from wp have "?p \<noteq> []" and "1 \<le> unat (last ?p)"
        by (simp_all add: wellPadded_def Let_def)
      with lp have "length (unpadded ?p) \<le> 15" by (simp add: unpadded_def)
      then show ?thesis by (intro inSafeRange_short) (simp add: utf8Decode_def)
    qed
    then show ?thesis by (simp add: payloadInSafeRange_def sp)
  qed
qed

lemma createChallenge_succeeds:
  assumes "blockSized E" "length (toString t) \<le> 15"
  shows "createChallenge nxt E t rng =
     Inr (\<lparr>encodedTimestamp =
             toHex (fst (cbcEncrypt E (Buffer_from (drawn nxt 16 rng))
               (Buffer_from (drawn nxt 16 (advanced nxt 16 rng)))
               (pkcs7pad (utf8Encode (toString t)))))
             @ '':'' @ toHex (Buffer_from (drawn nxt 16 (advanced nxt 16 rng))),
           secretKey = Buffer_from (drawn nxt 16 rng)\<rparr>, advanced nxt 32 rng)"
proof -
  have "length (toHex (fst (cbcEncrypt E (Buffer_from (drawn nxt 16 rng))
               (Buffer_from (drawn nxt 16 (advanced nxt 16 rng)))
               (pkcs7pad (utf8Encode (toString t)))))) = 32"
    using assms(2)
    by (simp add: length_encoded [OF assms(1)] length_Buffer_from length_drawn length_utf8Encode)
  then show ?thesis by (simp add: createChallenge_eq Let_def)
qed

lemma createChallenge_fails:
  assumes "blockSized E" "16 \<le> length (toString t)"
  shows "createChallenge nxt E t rng = Inl (DecodeFailure ''EncodedTimestampEncryptedPart'')"
proof -
  have "1 \<le> length (toString t) div 16" using assms(2) by (simp add: div_greater_zero_iff Suc_le_eq)
  then have "length (toHex (fst (cbcEncrypt E (Buffer_from (drawn nxt 16 rng))
               (Buffer_from (drawn nxt 16 (advanced nxt 16 rng)))
               (pkcs7pad (utf8Encode (toString t)))))) \<noteq> 32"
    by (simp add: length_encoded [OF assms(1)] length_Buffer_from length_drawn length_utf8Encode)
  then show ?thesis by (simp add: createChallenge_eq Let_def)
qed

lemma length_toString_short: "0 \<le> t \<Longrightarrow> t < 10 ^ 15 \<Longrightarrow> length (toString t) \<le> 15"
proof -
  assume a: "0 \<le> t" "t < 10 ^ 15"
  then have "nat t < 10 ^ 15" by (simp add: nat_less_iff)
  from length_natToString_le [OF this] a show ?thesis by (simp add: toString_def)
qed

lemma length_toString_safe: "isSafeInteger t \<Longrightarrow> length (toString t) \<le> 17"
proof -
  assume "isSafeInteger t"
  then have "nat \<bar>t\<bar> < 10 ^ 16"
    by (simp add: isSafeInteger_def MAX_SAFE_INTEGER_def)
  then have "length (natToString (nat \<bar>t\<bar>)) \<le> 16"
    by (rule length_natToString_le) simp
  then show ?thesis by (simp add: toString_def abs_if split: if_splits)
qed

lemma decode_of_encoded:
  assumes "blockCipherPair E D" "length key = 16" "length iv = 16"
  shows "decodeTimestamp D (toHex (fst (cbcEncrypt E key iv (pkcs7pad (utf8Encode s)))) @ '':'' @ toHex iv) key
     = parseNonNegativeInteger s"
proof -
  let ?ct = "fst (cbcEncrypt E key iv (pkcs7pad (utf8Encode s)))"
  have sp: "split (CHR '':'') (toHex ?ct @ '':'' @ toHex iv) = [toHex ?ct, toHex iv]"
    by (simp add: split_append colon_notin_toHex split_no_sep)
  have ev: "even (length (toHex ?ct))" by (simp add: length_toHex)
  show ?thesis
    by (simp add: decodeTimestamp_eq [OF blockCipherPair_blockSized_D [OF assms(1)]] sp ev
        fromHex_toHex aes128cbc_roundtrip [OF assms] utf8_roundtrip del: append.simps)
qed

lemma decodeTimestamp_nonneg: "decodeTimestamp D et key = Inr t \<Longrightarrow> 0 \<le> t"
  by (auto simp: decodeTimestamp_def parseNonNegativeInteger_Inr_iff Let_def
      split: list.splits sum.splits prod.splits)

lemma createChallenge_Inr_D:
  assumes "createChallenge nxt E t rng = Inr (c, rng')"
  shows "length (toHex (fst (cbcEncrypt E (Buffer_from (drawn nxt 16 rng))
               (Buffer_from (drawn nxt 16 (advanced nxt 16 rng)))
               (pkcs7pad (utf8Encode (toString t)))))) = 32"
    and "encodedTimestamp c = toHex (fst (cbcEncrypt E (Buffer_from (drawn nxt 16 rng))
               (Buffer_from (drawn nxt 16 (advanced nxt 16 rng)))
               (pkcs7pad (utf8Encode (toString t)))))
             @ '':'' @ toHex (Buffer_from (drawn nxt 16 (advanced nxt 16 rng)))"
    and "secretKey c = Buffer_from (drawn nxt 16 rng)"
    and "rng' = advanced nxt 32 rng"
  using assms by (auto simp: createChallenge_eq Let_def split: if_splits)

lemma isLowerHex_toHex: "isLowerHex (toHex buf)"
  unfolding isLowerHex_def list_all_iff hexDigits_def [symmetric]
  using set_toHex [of buf] by blast

lemma count_colon:
  "CHR '':'' \<notin> set a \<Longrightarrow> CHR '':'' \<notin> set b \<Longrightarrow>
   length (filter (\<lambda>x. x = CHR '':'') (a @ '':'' @ b)) = 1"
proof -
  assume a: "CHR '':'' \<notin> set a" and b: "CHR '':'' \<notin> set b"
  have "filter (\<lambda>x. x = CHR '':'') a = []" using a by (auto simp: filter_empty_conv)
  moreover have "filter (\<lambda>x. x = CHR '':'') b = []" using b by (auto simp: filter_empty_conv)
  ultimately show ?thesis by simp
qed

lemma halves_eq:
  assumes "a @ b = a' @ b'" "length a = length a'"
  shows "a = a' \<and> b = b'"
  using assms by simp

lemma aes128cbcEncrypt_drawn:
  "aes128cbcEncrypt E (Buffer_from (drawn nxt 16 rng)) (Buffer_from (drawn nxt 16 rng')) pt
     = Inr (fst (cbcEncrypt E (Buffer_from (drawn nxt 16 rng)) (Buffer_from (drawn nxt 16 rng')) (pkcs7pad pt)))"
  by (simp add: aes128cbcEncrypt_def length_Buffer_from length_drawn)

section \<open>AES-128: decryption undoes encryption\<close>

lemma subByte_eval:
  "subByte 0x00 = 0x63" "subByte 0x01 = 0x7c" "subByte 0x02 = 0x77" "subByte 0x03 = 0x7b"
  "subByte 0x04 = 0xf2" "subByte 0x05 = 0x6b" "subByte 0x06 = 0x6f" "subByte 0x07 = 0xc5"
  "subByte 0x08 = 0x30" "subByte 0x09 = 0x01" "subByte 0x0a = 0x67" "subByte 0x0b = 0x2b"
  "subByte 0x0c = 0xfe" "subByte 0x0d = 0xd7" "subByte 0x0e = 0xab" "subByte 0x0f = 0x76"
  "subByte 0x10 = 0xca" "subByte 0x11 = 0x82" "subByte 0x12 = 0xc9" "subByte 0x13 = 0x7d"
  "subByte 0x14 = 0xfa" "subByte 0x15 = 0x59" "subByte 0x16 = 0x47" "subByte 0x17 = 0xf0"
  "subByte 0x18 = 0xad" "subByte 0x19 = 0xd4" "subByte 0x1a = 0xa2" "subByte 0x1b = 0xaf"
  "subByte 0x1c = 0x9c" "subByte 0x1d = 0xa4" "subByte 0x1e = 0x72" "subByte 0x1f = 0xc0"
  "subByte 0x20 = 0xb7" "subByte 0x21 = 0xfd" "subByte 0x22 = 0x93" "subByte 0x23 = 0x26"
  "subByte 0x24 = 0x36" "subByte 0x25 = 0x3f" "subByte 0x26 = 0xf7" "subByte 0x27 = 0xcc"
  "subByte 0x28 = 0x34" "subByte 0x29 = 0xa5" "subByte 0x2a = 0xe5" "subByte 0x2b = 0xf1"
  "subByte 0x2c = 0x71" "subByte 0x2d = 0xd8" "subByte 0x2e = 0x31" "subByte 0x2f = 0x15"
  "subByte 0x30 = 0x04" "subByte 0x31 = 0xc7" "subByte 0x32 = 0x23" "subByte 0x33 = 0xc3"
  "subByte 0x34 = 0x18" "subByte 0x35 = 0x96" "subByte 0x36 = 0x05" "subByte 0x37 = 0x9a"
  "subByte 0x38 = 0x07" "subByte 0x39 = 0x12" "subByte 0x3a = 0x80" "subByte 0x3b = 0xe2"
  "subByte 0x3c = 0xeb" "subByte 0x3d = 0x27" "subByte 0x3e = 0xb2" "subByte 0x3f = 0x75"
  "subByte 0x40 = 0x09" "subByte 0x41 = 0x83" "subByte 0x42 = 0x2c" "subByte 0x43 = 0x1a"
  "subByte 0x44 = 0x1b" "subByte 0x45 = 0x6e" "subByte 0x46 = 0x5a" "subByte 0x47 = 0xa0"
  "subByte 0x48 = 0x52" "subByte 0x49 = 0x3b" "subByte 0x4a = 0xd6" "subByte 0x4b = 0xb3"
  "subByte 0x4c = 0x29" "subByte 0x4d = 0xe3" "subByte 0x4e = 0x2f" "subByte 0x4f = 0x84"
  "subByte 0x50 = 0x53" "subByte 0x51 = 0xd1" "subByte 0x52 = 0x00" "subByte 0x53 = 0xed"
  "subByte 0x54 = 0x20" "subByte 0x55 = 0xfc" "subByte 0x56 = 0xb1" "subByte 0x57 = 0x5b"
  "subByte 0x58 = 0x6a" "subByte 0x59 = 0xcb" "subByte 0x5a = 0xbe" "subByte 0x5b = 0x39"
  "subByte 0x5c = 0x4a" "subByte 0x5d = 0x4c" "subByte 0x5e = 0x58" "subByte 0x5f = 0xcf"
  "subByte 0x60 = 0xd0" "subByte 0x61 = 0xef" "subByte 0x62 = 0xaa" "subByte 0x63 = 0xfb"
  "subByte 0x64 = 0x43" "subByte 0x65 = 0x4d" "subByte 0x66 = 0x33" "subByte 0x67 = 0x85"
  "subByte 0x68 = 0x45" "subByte 0x69 = 0xf9" "subByte 0x6a = 0x02" "subByte 0x6b = 0x7f"
  "subByte 0x6c = 0x50" "subByte 0x6d = 0x3c" "subByte 0x6e = 0x9f" "subByte 0x6f = 0xa8"
  "subByte 0x70 = 0x51" "subByte 0x71 = 0xa3" "subByte 0x72 = 0x40" "subByte 0x73 = 0x8f"
  "subByte 0x74 = 0x92" "subByte 0x75 = 0x9d" "subByte 0x76 = 0x38" "subByte 0x77 = 0xf5"
  "subByte 0x78 = 0xbc" "subByte 0x79 = 0xb6" "subByte 0x7a = 0xda" "subByte 0x7b = 0x21"
  "subByte 0x7c = 0x10" "subByte 0x7d = 0xff" "subByte 0x7e = 0xf3" "subByte 0x7f = 0xd2"
  "subByte 0x80 = 0xcd" "subByte 0x81 = 0x0c" "subByte 0x82 = 0x13" "subByte 0x83 = 0xec"
  "subByte 0x84 = 0x5f" "subByte 0x85 = 0x97" "subByte 0x86 = 0x44" "subByte 0x87 = 0x17"
  "subByte 0x88 = 0xc4" "subByte 0x89 = 0xa7" "subByte 0x8a = 0x7e" "subByte 0x8b = 0x3d"
  "subByte 0x8c = 0x64" "subByte 0x8d = 0x5d" "subByte 0x8e = 0x19" "subByte 0x8f = 0x73"
  "subByte 0x90 = 0x60" "subByte 0x91 = 0x81" "subByte 0x92 = 0x4f" "subByte 0x93 = 0xdc"
  "subByte 0x94 = 0x22" "subByte 0x95 = 0x2a" "subByte 0x96 = 0x90" "subByte 0x97 = 0x88"
  "subByte 0x98 = 0x46" "subByte 0x99 = 0xee" "subByte 0x9a = 0xb8" "subByte 0x9b = 0x14"
  "subByte 0x9c = 0xde" "subByte 0x9d = 0x5e" "subByte 0x9e = 0x0b" "subByte 0x9f = 0xdb"
  "subByte 0xa0 = 0xe0" "subByte 0xa1 = 0x32" "subByte 0xa2 = 0x3a" "subByte 0xa3 = 0x0a"
  "subByte 0xa4 = 0x49" "subByte 0xa5 = 0x06" "subByte 0xa6 = 0x24" "subByte 0xa7 = 0x5c"
  "subByte 0xa8 = 0xc2" "subByte 0xa9 = 0xd3" "subByte 0xaa = 0xac" "subByte 0xab = 0x62"
  "subByte 0xac = 0x91" "subByte 0xad = 0x95" "subByte 0xae = 0xe4" "subByte 0xaf = 0x79"
  "subByte 0xb0 = 0xe7" "subByte 0xb1 = 0xc8" "subByte 0xb2 = 0x37" "subByte 0xb3 = 0x6d"
  "subByte 0xb4 = 0x8d" "subByte 0xb5 = 0xd5" "subByte 0xb6 = 0x4e" "subByte 0xb7 = 0xa9"
  "subByte 0xb8 = 0x6c" "subByte 0xb9 = 0x56" "subByte 0xba = 0xf4" "subByte 0xbb = 0xea"
  "subByte 0xbc = 0x65" "subByte 0xbd = 0x7a" "subByte 0xbe = 0xae" "subByte 0xbf = 0x08"
  "subByte 0xc0 = 0xba" "subByte 0xc1 = 0x78" "subByte 0xc2 = 0x25" "subByte 0xc3 = 0x2e"
  "subByte 0xc4 = 0x1c" "subByte 0xc5 = 0xa6" "subByte 0xc6 = 0xb4" "subByte 0xc7 = 0xc6"
  "subByte 0xc8 = 0xe8" "subByte 0xc9 = 0xdd" "subByte 0xca = 0x74" "subByte 0xcb = 0x1f"
  "subByte 0xcc = 0x4b" "subByte 0xcd = 0xbd" "subByte 0xce = 0x8b" "subByte 0xcf = 0x8a"
  "subByte 0xd0 = 0x70" "subByte 0xd1 = 0x3e" "subByte 0xd2 = 0xb5" "subByte 0xd3 = 0x66"
  "subByte 0xd4 = 0x48" "subByte 0xd5 = 0x03" "subByte 0xd6 = 0xf6" "subByte 0xd7 = 0x0e"
  "subByte 0xd8 = 0x61" "subByte 0xd9 = 0x35" "subByte 0xda = 0x57" "subByte 0xdb = 0xb9"
  "subByte 0xdc = 0x86" "subByte 0xdd = 0xc1" "subByte 0xde = 0x1d" "subByte 0xdf = 0x9e"
  "subByte 0xe0 = 0xe1" "subByte 0xe1 = 0xf8" "subByte 0xe2 = 0x98" "subByte 0xe3 = 0x11"
  "subByte 0xe4 = 0x69" "subByte 0xe5 = 0xd9" "subByte 0xe6 = 0x8e" "subByte 0xe7 = 0x94"
  "subByte 0xe8 = 0x9b" "subByte 0xe9 = 0x1e" "subByte 0xea = 0x87" "subByte 0xeb = 0xe9"
  "subByte 0xec = 0xce" "subByte 0xed = 0x55" "subByte 0xee = 0x28" "subByte 0xef = 0xdf"
  "subByte 0xf0 = 0x8c" "subByte 0xf1 = 0xa1" "subByte 0xf2 = 0x89" "subByte 0xf3 = 0x0d"
  "subByte 0xf4 = 0xbf" "subByte 0xf5 = 0xe6" "subByte 0xf6 = 0x42" "subByte 0xf7 = 0x68"
  "subByte 0xf8 = 0x41" "subByte 0xf9 = 0x99" "subByte 0xfa = 0x2d" "subByte 0xfb = 0x0f"
  "subByte 0xfc = 0xb0" "subByte 0xfd = 0x54" "subByte 0xfe = 0xbb" "subByte 0xff = 0x16"
  by (simp_all add: subByte_def sboxTable_def)

lemma invSubByte_eval:
  "invSubByte 0x00 = 0x52" "invSubByte 0x01 = 0x09" "invSubByte 0x02 = 0x6a" "invSubByte 0x03 = 0xd5"
  "invSubByte 0x04 = 0x30" "invSubByte 0x05 = 0x36" "invSubByte 0x06 = 0xa5" "invSubByte 0x07 = 0x38"
  "invSubByte 0x08 = 0xbf" "invSubByte 0x09 = 0x40" "invSubByte 0x0a = 0xa3" "invSubByte 0x0b = 0x9e"
  "invSubByte 0x0c = 0x81" "invSubByte 0x0d = 0xf3" "invSubByte 0x0e = 0xd7" "invSubByte 0x0f = 0xfb"
  "invSubByte 0x10 = 0x7c" "invSubByte 0x11 = 0xe3" "invSubByte 0x12 = 0x39" "invSubByte 0x13 = 0x82"
  "invSubByte 0x14 = 0x9b" "invSubByte 0x15 = 0x2f" "invSubByte 0x16 = 0xff" "invSubByte 0x17 = 0x87"
  "invSubByte 0x18 = 0x34" "invSubByte 0x19 = 0x8e" "invSubByte 0x1a = 0x43" "invSubByte 0x1b = 0x44"
  "invSubByte 0x1c = 0xc4" "invSubByte 0x1d = 0xde" "invSubByte 0x1e = 0xe9" "invSubByte 0x1f = 0xcb"
  "invSubByte 0x20 = 0x54" "invSubByte 0x21 = 0x7b" "invSubByte 0x22 = 0x94" "invSubByte 0x23 = 0x32"
  "invSubByte 0x24 = 0xa6" "invSubByte 0x25 = 0xc2" "invSubByte 0x26 = 0x23" "invSubByte 0x27 = 0x3d"
  "invSubByte 0x28 = 0xee" "invSubByte 0x29 = 0x4c" "invSubByte 0x2a = 0x95" "invSubByte 0x2b = 0x0b"
  "invSubByte 0x2c = 0x42" "invSubByte 0x2d = 0xfa" "invSubByte 0x2e = 0xc3" "invSubByte 0x2f = 0x4e"
  "invSubByte 0x30 = 0x08" "invSubByte 0x31 = 0x2e" "invSubByte 0x32 = 0xa1" "invSubByte 0x33 = 0x66"
  "invSubByte 0x34 = 0x28" "invSubByte 0x35 = 0xd9" "invSubByte 0x36 = 0x24" "invSubByte 0x37 = 0xb2"
  "invSubByte 0x38 = 0x76" "invSubByte 0x39 = 0x5b" "invSubByte 0x3a = 0xa2" "invSubByte 0x3b = 0x49"
  "invSubByte 0x3c = 0x6d" "invSubByte 0x3d = 0x8b" "invSubByte 0x3e = 0xd1" "invSubByte 0x3f = 0x25"
  "invSubByte 0x40 = 0x72" "invSubByte 0x41 = 0xf8" "invSubByte 0x42 = 0xf6" "invSubByte 0x43 = 0x64"
  "invSubByte 0x44 = 0x86" "invSubByte 0x45 = 0x68" "invSubByte 0x46 = 0x98" "invSubByte 0x47 = 0x16"
  "invSubByte 0x48 = 0xd4" "invSubByte 0x49 = 0xa4" "invSubByte 0x4a = 0x5c" "invSubByte 0x4b = 0xcc"
  "invSubByte 0x4c = 0x5d" "invSubByte 0x4d = 0x65" "invSubByte 0x4e = 0xb6" "invSubByte 0x4f = 0x92"
  "invSubByte 0x50 = 0x6c" "invSubByte 0x51 = 0x70" "invSubByte 0x52 = 0x48" "invSubByte 0x53 = 0x50"
  "invSubByte 0x54 = 0xfd" "invSubByte 0x55 = 0xed" "invSubByte 0x56 = 0xb9" "invSubByte 0x57 = 0xda"
  "invSubByte 0x58 = 0x5e" "invSubByte 0x59 = 0x15" "invSubByte 0x5a = 0x46" "invSubByte 0x5b = 0x57"
  "invSubByte 0x5c = 0xa7" "invSubByte 0x5d = 0x8d" "invSubByte 0x5e = 0x9d" "invSubByte 0x5f = 0x84"
  "invSubByte 0x60 = 0x90" "invSubByte 0x61 = 0xd8" "invSubByte 0x62 = 0xab" "invSubByte 0x63 = 0x00"
  "invSubByte 0x64 = 0x8c" "invSubByte 0x65 = 0xbc" "invSubByte 0x66 = 0xd3" "invSubByte 0x67 = 0x0a"
  "invSubByte 0x68 = 0xf7" "invSubByte 0x69 = 0xe4" "invSubByte 0x6a = 0x58" "invSubByte 0x6b = 0x05"
  "invSubByte 0x6c = 0xb8" "invSubByte 0x6d = 0xb3" "invSubByte 0x6e = 0x45" "invSubByte 0x6f = 0x06"
  "invSubByte 0x70 = 0xd0" "invSubByte 0x71 = 0x2c" "invSubByte 0x72 = 0x1e" "invSubByte 0x73 = 0x8f"
  "invSubByte 0x74 = 0xca" "invSubByte 0x75 = 0x3f" "invSubByte 0x76 = 0x0f" "invSubByte 0x77 = 0x02"
  "invSubByte 0x78 = 0xc1" "invSubByte 0x79 = 0xaf" "invSubByte 0x7a = 0xbd" "invSubByte 0x7b = 0x03"
  "invSubByte 0x7c = 0x01" "invSubByte 0x7d = 0x13" "invSubByte 0x7e = 0x8a" "invSubByte 0x7f = 0x6b"
  "invSubByte 0x80 = 0x3a" "invSubByte 0x81 = 0x91" "invSubByte 0x82 = 0x11" "invSubByte 0x83 = 0x41"
  "invSubByte 0x84 = 0x4f" "invSubByte 0x85 = 0x67" "invSubByte 0x86 = 0xdc" "invSubByte 0x87 = 0xea"
  "invSubByte 0x88 = 0x97" "invSubByte 0x89 = 0xf2" "invSubByte 0x8a = 0xcf" "invSubByte 0x8b = 0xce"
  "invSubByte 0x8c = 0xf0" "invSubByte 0x8d = 0xb4" "invSubByte 0x8e = 0xe6" "invSubByte 0x8f = 0x73"
  "invSubByte 0x90 = 0x96" "invSubByte 0x91 = 0xac" "invSubByte 0x92 = 0x74" "invSubByte 0x93 = 0x22"
  "invSubByte 0x94 = 0xe7" "invSubByte 0x95 = 0xad" "invSubByte 0x96 = 0x35" "invSubByte 0x97 = 0x85"
  "invSubByte 0x98 = 0xe2" "invSubByte 0x99 = 0xf9" "invSubByte 0x9a = 0x37" "invSubByte 0x9b = 0xe8"
  "invSubByte 0x9c = 0x1c" "invSubByte 0x9d = 0x75" "invSubByte 0x9e = 0xdf" "invSubByte 0x9f = 0x6e"
  "invSubByte 0xa0 = 0x47" "invSubByte 0xa1 = 0xf1" "invSubByte 0xa2 = 0x1a" "invSubByte 0xa3 = 0x71"
  "invSubByte 0xa4 = 0x1d" "invSubByte 0xa5 = 0x29" "invSubByte 0xa6 = 0xc5" "invSubByte 0xa7 = 0x89"
  "invSubByte 0xa8 = 0x6f" "invSubByte 0xa9 = 0xb7" "invSubByte 0xaa = 0x62" "invSubByte 0xab = 0x0e"
  "invSubByte 0xac = 0xaa" "invSubByte 0xad = 0x18" "invSubByte 0xae = 0xbe" "invSubByte 0xaf = 0x1b"
  "invSubByte 0xb0 = 0xfc" "invSubByte 0xb1 = 0x56" "invSubByte 0xb2 = 0x3e" "invSubByte 0xb3 = 0x4b"
  "invSubByte 0xb4 = 0xc6" "invSubByte 0xb5 = 0xd2" "invSubByte 0xb6 = 0x79" "invSubByte 0xb7 = 0x20"
  "invSubByte 0xb8 = 0x9a" "invSubByte 0xb9 = 0xdb" "invSubByte 0xba = 0xc0" "invSubByte 0xbb = 0xfe"
  "invSubByte 0xbc = 0x78" "invSubByte 0xbd = 0xcd" "invSubByte 0xbe = 0x5a" "invSubByte 0xbf = 0xf4"
  "invSubByte 0xc0 = 0x1f" "invSubByte 0xc1 = 0xdd" "invSubByte 0xc2 = 0xa8" "invSubByte 0xc3 = 0x33"
  "invSubByte 0xc4 = 0x88" "invSubByte 0xc5 = 0x07" "invSubByte 0xc6 = 0xc7" "invSubByte 0xc7 = 0x31"
  "invSubByte 0xc8 = 0xb1" "invSubByte 0xc9 = 0x12" "invSubByte 0xca = 0x10" "invSubByte 0xcb = 0x59"
  "invSubByte 0xcc = 0x27" "invSubByte 0xcd = 0x80" "invSubByte 0xce = 0xec" "invSubByte 0xcf = 0x5f"
  "invSubByte 0xd0 = 0x60" "invSubByte 0xd1 = 0x51" "invSubByte 0xd2 = 0x7f" "invSubByte 0xd3 = 0xa9"
  "invSubByte 0xd4 = 0x19" "invSubByte 0xd5 = 0xb5" "invSubByte 0xd6 = 0x4a" "invSubByte 0xd7 = 0x0d"
  "invSubByte 0xd8 = 0x2d" "invSubByte 0xd9 = 0xe5" "invSubByte 0xda = 0x7a" "invSubByte 0xdb = 0x9f"
  "invSubByte 0xdc = 0x93" "invSubByte 0xdd = 0xc9" "invSubByte 0xde = 0x9c" "invSubByte 0xdf = 0xef"
  "invSubByte 0xe0 = 0xa0" "invSubByte 0xe1 = 0xe0" "invSubByte 0xe2 = 0x3b" "invSubByte 0xe3 = 0x4d"
  "invSubByte 0xe4 = 0xae" "invSubByte 0xe5 = 0x2a" "invSubByte 0xe6 = 0xf5" "invSubByte 0xe7 = 0xb0"
  "invSubByte 0xe8 = 0xc8" "invSubByte 0xe9 = 0xeb" "invSubByte 0xea = 0xbb" "invSubByte 0xeb = 0x3c"
  "invSubByte 0xec = 0x83" "invSubByte 0xed = 0x53" "invSubByte 0xee = 0x99" "invSubByte 0xef = 0x61"
  "invSubByte 0xf0 = 0x17" "invSubByte 0xf1 = 0x2b" "invSubByte 0xf2 = 0x04" "invSubByte 0xf3 = 0x7e"
  "invSubByte 0xf4 = 0xba" "invSubByte 0xf5 = 0x77" "invSubByte 0xf6 = 0xd6" "invSubByte 0xf7 = 0x26"
  "invSubByte 0xf8 = 0xe1" "invSubByte 0xf9 = 0x69" "invSubByte 0xfa = 0x14" "invSubByte 0xfb = 0x63"
  "invSubByte 0xfc = 0x55" "invSubByte 0xfd = 0x21" "invSubByte 0xfe = 0x0c" "invSubByte 0xff = 0x7d"
  by (simp_all add: invSubByte_def invSboxTable_def)

lemma all_less_numeral:
  "(\<forall>n<numeral k. Q n) \<longleftrightarrow> (\<forall>n<pred_numeral k. Q n) \<and> Q (pred_numeral k)"
  by (auto simp: numeral_eq_Suc less_Suc_eq)

lemma invSubByte_subByte: "invSubByte (subByte b) = b"
proof -
  have "\<forall>n<256. invSubByte (subByte (of_nat n)) = (of_nat n :: byte)"
    by (simp add: all_less_numeral subByte_eval invSubByte_eval)
  moreover have "unat b < 256" using unsigned_less [of b] by simp
  ultimately have "invSubByte (subByte (of_nat (unat b))) = (of_nat (unat b) :: byte)" by blast
  then show ?thesis by simp
qed

lemma xor_cancel_left: "(a::byte) XOR (a XOR b) = b"
  by (simp add: xor.assoc [symmetric])

lemma xtime_xor: "xtime (a XOR b) = xtime a XOR xtime b"
  by (cases "bit a 7"; cases "bit b 7")
    (simp_all add: xtime_def bit_xor_iff push_bit_xor xor_cancel_left ac_simps)

lemma invMixColumn_mixColumn:
  "mixColumn a0 a1 a2 a3 = [b0, b1, b2, b3] \<Longrightarrow> invMixColumn b0 b1 b2 b3 = [a0, a1, a2, a3]"
  by (auto simp: mixColumn_def invMixColumn_def mul9_def mul11_def mul13_def mul14_def xtime_xor
      xor_cancel_left ac_simps)


lemma list16:
  assumes "length (st::'a list) = 16"
  obtains s0 s1 s2 s3 s4 s5 s6 s7 s8 s9 s10 s11 s12 s13 s14 s15
  where "st = [s0, s1, s2, s3, s4, s5, s6, s7, s8, s9, s10, s11, s12, s13, s14, s15]"
proof -
  from assms have "\<exists>s0 s1 s2 s3 s4 s5 s6 s7 s8 s9 s10 s11 s12 s13 s14 s15.
      st = [s0, s1, s2, s3, s4, s5, s6, s7, s8, s9, s10, s11, s12, s13, s14, s15]"
    by (simp add: numeral_eq_Suc length_Suc_conv) blast
  with that show thesis by blast
qed

lemma invShiftRows_shiftRows: "length st = 16 \<Longrightarrow> invShiftRows (shiftRows st) = st"
  by (erule list16) simp

lemma length_shiftRows: "length (shiftRows st) = length st"
  by (induction st rule: shiftRows.induct) simp_all

lemma length_invShiftRows: "length (invShiftRows st) = length st"
  by (induction st rule: invShiftRows.induct) simp_all

lemma length_mixColumns: "length (mixColumns st) = length st"
  by (induction st rule: mixColumns.induct) (simp_all add: mixColumn_def)

lemma length_invMixColumns: "length (invMixColumns st) = length st"
  by (induction st rule: invMixColumns.induct) (simp_all add: invMixColumn_def)

lemma invMixColumns_mixColumns: "invMixColumns (mixColumns st) = st"
proof (induction st rule: mixColumns.induct)
  case (1 a0 a1 a2 a3 rest)
  obtain b0 b1 b2 b3 where b: "mixColumn a0 a1 a2 a3 = [b0, b1, b2, b3]"
    by (simp add: mixColumn_def)
  from invMixColumn_mixColumn [OF b] b "1.IH" show ?case by simp
qed simp_all

lemma invSubBytes_subBytes: "invSubBytes (subBytes st) = st"
  by (induction st) (simp_all add: invSubBytes_def subBytes_def invSubByte_subByte)

lemma length_subBytes: "length (subBytes st) = length st" "length (invSubBytes st) = length st"
  by (simp_all add: subBytes_def invSubBytes_def)

lemma length_nextRoundKey: "length k = 16 \<Longrightarrow> length (nextRoundKey rc k) = 16"
  by (erule list16) (simp add: Let_def length_xorBytes)

lemma keySchedule_lengths:
  "length k = 16 \<Longrightarrow> rk \<in> set (keySchedule k rcs) \<Longrightarrow> length rk = 16"
proof (induction rcs arbitrary: k)
  case Nil
  then show ?case by simp
next
  case (Cons rc rcs)
  from Cons.prems(1) have l: "length (nextRoundKey rc k) = 16" by (rule length_nextRoundKey)
  from Cons.prems(2) have "rk = nextRoundKey rc k \<or> rk \<in> set (keySchedule (nextRoundKey rc k) rcs)"
    by simp
  with l Cons.IH [OF l] show ?case by blast
qed

lemma length_encRound: "length st = 16 \<Longrightarrow> length rk = 16 \<Longrightarrow> length (encRound st rk) = 16"
  by (simp add: encRound_def length_xorBytes length_mixColumns length_shiftRows length_subBytes)

lemma length_decRound: "length st = 16 \<Longrightarrow> length rk = 16 \<Longrightarrow> length (decRound rk st) = 16"
  by (simp add: decRound_def length_xorBytes length_invMixColumns length_invShiftRows length_subBytes)

lemma decRound_encRound: "length st = 16 \<Longrightarrow> length rk = 16 \<Longrightarrow> decRound rk (encRound st rk) = st"
  by (simp add: decRound_def encRound_def xorBytes_cancel length_mixColumns length_shiftRows
      length_subBytes invMixColumns_mixColumns invShiftRows_shiftRows invSubBytes_subBytes)

lemma length_cipherRounds:
  "length st = 16 \<Longrightarrow> \<forall>rk\<in>set rks. length rk = 16 \<Longrightarrow> length (cipherRounds st rks) = 16"
  by (induction st rks rule: cipherRounds.induct)
    (simp_all add: length_xorBytes length_shiftRows length_subBytes length_encRound)

lemma length_invCipherRounds:
  "length st = 16 \<Longrightarrow> \<forall>rk\<in>set rks. length rk = 16 \<Longrightarrow> length (invCipherRounds rks st) = 16"
  by (induction rks st rule: invCipherRounds.induct)
    (simp_all add: length_xorBytes length_invShiftRows length_subBytes length_decRound)

lemma invCipherRounds_cipherRounds:
  "length st = 16 \<Longrightarrow> \<forall>rk\<in>set rks. length rk = 16 \<Longrightarrow>
   invCipherRounds rks (cipherRounds st rks) = st"
proof (induction st rks rule: cipherRounds.induct)
  case (1 st)
  then show ?case by simp
next
  case (2 st rk)
  then show ?case
    by (simp add: xorBytes_cancel length_shiftRows length_subBytes invShiftRows_shiftRows
        invSubBytes_subBytes)
next
  case (3 st rk v va)
  then show ?case by (simp add: length_encRound decRound_encRound)
qed

lemma aes_blockSized: "blockSized aesEncryptBlock" "blockSized aesDecryptBlock"
  using keySchedule_lengths
  by (auto simp: blockSized_def aesEncryptBlock_def aesDecryptBlock_def length_cipherRounds
      length_invCipherRounds length_xorBytes)

lemma aes_blockCipherPair: "blockCipherPair aesEncryptBlock aesDecryptBlock"
proof -
  have "aesDecryptBlock key (aesEncryptBlock key block) = block"
    if "length key = 16" "length block = 16" for key block
  proof -
    have rks: "\<forall>rk\<in>set (keySchedule key roundConstants). length rk = 16"
      using keySchedule_lengths [OF that(1)] by blast
    have "length (xorBytes block key) = 16" using that by (simp add: length_xorBytes)
    from invCipherRounds_cipherRounds [OF this rks] that show ?thesis
      by (simp add: aesEncryptBlock_def aesDecryptBlock_def xorBytes_cancel)
  qed
  then show ?thesis by (simp add: blockCipherPair_def aes_blockSized)
qed

text \<open>The example of the standard (FIPS 197, appendix C.1) and the block of the example below.\<close>

lemmas round_eval =
  encRound_def subBytes_def subByte_eval mixColumn_def xtime_def xorBytes_def

lemma aesEncryptBlock_fips197:
  "aesEncryptBlock [0x00, 0x01, 0x02, 0x03, 0x04, 0x05, 0x06, 0x07, 0x08, 0x09, 0x0a, 0x0b, 0x0c, 0x0d, 0x0e, 0x0f]
     [0x00, 0x11, 0x22, 0x33, 0x44, 0x55, 0x66, 0x77, 0x88, 0x99, 0xaa, 0xbb, 0xcc, 0xdd, 0xee, 0xff]
   = [0x69, 0xc4, 0xe0, 0xd8, 0x6a, 0x7b, 0x04, 0x30, 0xd8, 0xcd, 0xb7, 0x80, 0x70, 0xb4, 0xc5, 0x5a]"
proof -
  have ks: "keySchedule [0x00, 0x01, 0x02, 0x03, 0x04, 0x05, 0x06, 0x07, 0x08, 0x09, 0x0a, 0x0b, 0x0c, 0x0d, 0x0e, 0x0f] roundConstants =
    [[0xd6, 0xaa, 0x74, 0xfd, 0xd2, 0xaf, 0x72, 0xfa, 0xda, 0xa6, 0x78, 0xf1, 0xd6, 0xab, 0x76, 0xfe],
     [0xb6, 0x92, 0xcf, 0x0b, 0x64, 0x3d, 0xbd, 0xf1, 0xbe, 0x9b, 0xc5, 0x00, 0x68, 0x30, 0xb3, 0xfe],
     [0xb6, 0xff, 0x74, 0x4e, 0xd2, 0xc2, 0xc9, 0xbf, 0x6c, 0x59, 0x0c, 0xbf, 0x04, 0x69, 0xbf, 0x41],
     [0x47, 0xf7, 0xf7, 0xbc, 0x95, 0x35, 0x3e, 0x03, 0xf9, 0x6c, 0x32, 0xbc, 0xfd, 0x05, 0x8d, 0xfd],
     [0x3c, 0xaa, 0xa3, 0xe8, 0xa9, 0x9f, 0x9d, 0xeb, 0x50, 0xf3, 0xaf, 0x57, 0xad, 0xf6, 0x22, 0xaa],
     [0x5e, 0x39, 0x0f, 0x7d, 0xf7, 0xa6, 0x92, 0x96, 0xa7, 0x55, 0x3d, 0xc1, 0x0a, 0xa3, 0x1f, 0x6b],
     [0x14, 0xf9, 0x70, 0x1a, 0xe3, 0x5f, 0xe2, 0x8c, 0x44, 0x0a, 0xdf, 0x4d, 0x4e, 0xa9, 0xc0, 0x26],
     [0x47, 0x43, 0x87, 0x35, 0xa4, 0x1c, 0x65, 0xb9, 0xe0, 0x16, 0xba, 0xf4, 0xae, 0xbf, 0x7a, 0xd2],
     [0x54, 0x99, 0x32, 0xd1, 0xf0, 0x85, 0x57, 0x68, 0x10, 0x93, 0xed, 0x9c, 0xbe, 0x2c, 0x97, 0x4e],
     [0x13, 0x11, 0x1d, 0x7f, 0xe3, 0x94, 0x4a, 0x17, 0xf3, 0x07, 0xa7, 0x8b, 0x4d, 0x2b, 0x30, 0xc5]]"
    by (simp add: roundConstants_def xorBytes_def subByte_eval Let_def)
  have s0: "xorBytes [0x00, 0x11, 0x22, 0x33, 0x44, 0x55, 0x66, 0x77, 0x88, 0x99, 0xaa, 0xbb, 0xcc, 0xdd, 0xee, 0xff]
      [0x00, 0x01, 0x02, 0x03, 0x04, 0x05, 0x06, 0x07, 0x08, 0x09, 0x0a, 0x0b, 0x0c, 0x0d, 0x0e, 0x0f]
    = [0x00, 0x10, 0x20, 0x30, 0x40, 0x50, 0x60, 0x70, 0x80, 0x90, 0xa0, 0xb0, 0xc0, 0xd0, 0xe0, 0xf0]"
    by (simp add: xorBytes_def)
  have r1: "encRound [0x00, 0x10, 0x20, 0x30, 0x40, 0x50, 0x60, 0x70, 0x80, 0x90, 0xa0, 0xb0, 0xc0, 0xd0, 0xe0, 0xf0]
      [0xd6, 0xaa, 0x74, 0xfd, 0xd2, 0xaf, 0x72, 0xfa, 0xda, 0xa6, 0x78, 0xf1, 0xd6, 0xab, 0x76, 0xfe]
    = [0x89, 0xd8, 0x10, 0xe8, 0x85, 0x5a, 0xce, 0x68, 0x2d, 0x18, 0x43, 0xd8, 0xcb, 0x12, 0x8f, 0xe4]"
    by (simp add: round_eval)
  have r2: "encRound [0x89, 0xd8, 0x10, 0xe8, 0x85, 0x5a, 0xce, 0x68, 0x2d, 0x18, 0x43, 0xd8, 0xcb, 0x12, 0x8f, 0xe4]
      [0xb6, 0x92, 0xcf, 0x0b, 0x64, 0x3d, 0xbd, 0xf1, 0xbe, 0x9b, 0xc5, 0x00, 0x68, 0x30, 0xb3, 0xfe]
    = [0x49, 0x15, 0x59, 0x8f, 0x55, 0xe5, 0xd7, 0xa0, 0xda, 0xca, 0x94, 0xfa, 0x1f, 0x0a, 0x63, 0xf7]"
    by (simp add: round_eval)
  have r3: "encRound [0x49, 0x15, 0x59, 0x8f, 0x55, 0xe5, 0xd7, 0xa0, 0xda, 0xca, 0x94, 0xfa, 0x1f, 0x0a, 0x63, 0xf7]
      [0xb6, 0xff, 0x74, 0x4e, 0xd2, 0xc2, 0xc9, 0xbf, 0x6c, 0x59, 0x0c, 0xbf, 0x04, 0x69, 0xbf, 0x41]
    = [0xfa, 0x63, 0x6a, 0x28, 0x25, 0xb3, 0x39, 0xc9, 0x40, 0x66, 0x8a, 0x31, 0x57, 0x24, 0x4d, 0x17]"
    by (simp add: round_eval)
  have r4: "encRound [0xfa, 0x63, 0x6a, 0x28, 0x25, 0xb3, 0x39, 0xc9, 0x40, 0x66, 0x8a, 0x31, 0x57, 0x24, 0x4d, 0x17]
      [0x47, 0xf7, 0xf7, 0xbc, 0x95, 0x35, 0x3e, 0x03, 0xf9, 0x6c, 0x32, 0xbc, 0xfd, 0x05, 0x8d, 0xfd]
    = [0x24, 0x72, 0x40, 0x23, 0x69, 0x66, 0xb3, 0xfa, 0x6e, 0xd2, 0x75, 0x32, 0x88, 0x42, 0x5b, 0x6c]"
    by (simp add: round_eval)
  have r5: "encRound [0x24, 0x72, 0x40, 0x23, 0x69, 0x66, 0xb3, 0xfa, 0x6e, 0xd2, 0x75, 0x32, 0x88, 0x42, 0x5b, 0x6c]
      [0x3c, 0xaa, 0xa3, 0xe8, 0xa9, 0x9f, 0x9d, 0xeb, 0x50, 0xf3, 0xaf, 0x57, 0xad, 0xf6, 0x22, 0xaa]
    = [0xc8, 0x16, 0x77, 0xbc, 0x9b, 0x7a, 0xc9, 0x3b, 0x25, 0x02, 0x79, 0x92, 0xb0, 0x26, 0x19, 0x96]"
    by (simp add: round_eval)
  have r6: "encRound [0xc8, 0x16, 0x77, 0xbc, 0x9b, 0x7a, 0xc9, 0x3b, 0x25, 0x02, 0x79, 0x92, 0xb0, 0x26, 0x19, 0x96]
      [0x5e, 0x39, 0x0f, 0x7d, 0xf7, 0xa6, 0x92, 0x96, 0xa7, 0x55, 0x3d, 0xc1, 0x0a, 0xa3, 0x1f, 0x6b]
    = [0xc6, 0x2f, 0xe1, 0x09, 0xf7, 0x5e, 0xed, 0xc3, 0xcc, 0x79, 0x39, 0x5d, 0x84, 0xf9, 0xcf, 0x5d]"
    by (simp add: round_eval)
  have r7: "encRound [0xc6, 0x2f, 0xe1, 0x09, 0xf7, 0x5e, 0xed, 0xc3, 0xcc, 0x79, 0x39, 0x5d, 0x84, 0xf9, 0xcf, 0x5d]
      [0x14, 0xf9, 0x70, 0x1a, 0xe3, 0x5f, 0xe2, 0x8c, 0x44, 0x0a, 0xdf, 0x4d, 0x4e, 0xa9, 0xc0, 0x26]
    = [0xd1, 0x87, 0x6c, 0x0f, 0x79, 0xc4, 0x30, 0x0a, 0xb4, 0x55, 0x94, 0xad, 0xd6, 0x6f, 0xf4, 0x1f]"
    by (simp add: round_eval)
  have r8: "encRound [0xd1, 0x87, 0x6c, 0x0f, 0x79, 0xc4, 0x30, 0x0a, 0xb4, 0x55, 0x94, 0xad, 0xd6, 0x6f, 0xf4, 0x1f]
      [0x47, 0x43, 0x87, 0x35, 0xa4, 0x1c, 0x65, 0xb9, 0xe0, 0x16, 0xba, 0xf4, 0xae, 0xbf, 0x7a, 0xd2]
    = [0xfd, 0xe3, 0xba, 0xd2, 0x05, 0xe5, 0xd0, 0xd7, 0x35, 0x47, 0x96, 0x4e, 0xf1, 0xfe, 0x37, 0xf1]"
    by (simp add: round_eval)
  have r9: "encRound [0xfd, 0xe3, 0xba, 0xd2, 0x05, 0xe5, 0xd0, 0xd7, 0x35, 0x47, 0x96, 0x4e, 0xf1, 0xfe, 0x37, 0xf1]
      [0x54, 0x99, 0x32, 0xd1, 0xf0, 0x85, 0x57, 0x68, 0x10, 0x93, 0xed, 0x9c, 0xbe, 0x2c, 0x97, 0x4e]
    = [0xbd, 0x6e, 0x7c, 0x3d, 0xf2, 0xb5, 0x77, 0x9e, 0x0b, 0x61, 0x21, 0x6e, 0x8b, 0x10, 0xb6, 0x89]"
    by (simp add: round_eval)
  have fin: "xorBytes (shiftRows (subBytes [0xbd, 0x6e, 0x7c, 0x3d, 0xf2, 0xb5, 0x77, 0x9e, 0x0b, 0x61, 0x21, 0x6e, 0x8b, 0x10, 0xb6, 0x89]))
      [0x13, 0x11, 0x1d, 0x7f, 0xe3, 0x94, 0x4a, 0x17, 0xf3, 0x07, 0xa7, 0x8b, 0x4d, 0x2b, 0x30, 0xc5]
    = [0x69, 0xc4, 0xe0, 0xd8, 0x6a, 0x7b, 0x04, 0x30, 0xd8, 0xcd, 0xb7, 0x80, 0x70, 0xb4, 0xc5, 0x5a]"
    by (simp add: round_eval)
  show ?thesis
    by (simp only: aesEncryptBlock_def ks s0 cipherRounds.simps r1 r2 r3 r4 r5 r6 r7 r8 r9 fin)
qed

lemma aesEncryptBlock_example:
  "aesEncryptBlock [0x00, 0x01, 0x02, 0x03, 0x04, 0x05, 0x06, 0x07, 0x08, 0x09, 0x0a, 0x0b, 0x0c, 0x0d, 0x0e, 0x0f]
     [0x21, 0x26, 0x22, 0x23, 0x24, 0x25, 0x26, 0x27, 0x28, 0x29, 0x2a, 0x2b, 0x2c, 0x1e, 0x1d, 0x1c]
   = [0x99, 0x9f, 0x11, 0xa5, 0x00, 0xa8, 0xae, 0x02, 0x31, 0x2e, 0x68, 0xea, 0x3b, 0x27, 0x58, 0xf3]"
proof -
  have ks: "keySchedule [0x00, 0x01, 0x02, 0x03, 0x04, 0x05, 0x06, 0x07, 0x08, 0x09, 0x0a, 0x0b, 0x0c, 0x0d, 0x0e, 0x0f] roundConstants =
    [[0xd6, 0xaa, 0x74, 0xfd, 0xd2, 0xaf, 0x72, 0xfa, 0xda, 0xa6, 0x78, 0xf1, 0xd6, 0xab, 0x76, 0xfe],
     [0xb6, 0x92, 0xcf, 0x0b, 0x64, 0x3d, 0xbd, 0xf1, 0xbe, 0x9b, 0xc5, 0x00, 0x68, 0x30, 0xb3, 0xfe],
     [0xb6, 0xff, 0x74, 0x4e, 0xd2, 0xc2, 0xc9, 0xbf, 0x6c, 0x59, 0x0c, 0xbf, 0x04, 0x69, 0xbf, 0x41],
     [0x47, 0xf7, 0xf7, 0xbc, 0x95, 0x35, 0x3e, 0x03, 0xf9, 0x6c, 0x32, 0xbc, 0xfd, 0x05, 0x8d, 0xfd],
     [0x3c, 0xaa, 0xa3, 0xe8, 0xa9, 0x9f, 0x9d, 0xeb, 0x50, 0xf3, 0xaf, 0x57, 0xad, 0xf6, 0x22, 0xaa],
     [0x5e, 0x39, 0x0f, 0x7d, 0xf7, 0xa6, 0x92, 0x96, 0xa7, 0x55, 0x3d, 0xc1, 0x0a, 0xa3, 0x1f, 0x6b],
     [0x14, 0xf9, 0x70, 0x1a, 0xe3, 0x5f, 0xe2, 0x8c, 0x44, 0x0a, 0xdf, 0x4d, 0x4e, 0xa9, 0xc0, 0x26],
     [0x47, 0x43, 0x87, 0x35, 0xa4, 0x1c, 0x65, 0xb9, 0xe0, 0x16, 0xba, 0xf4, 0xae, 0xbf, 0x7a, 0xd2],
     [0x54, 0x99, 0x32, 0xd1, 0xf0, 0x85, 0x57, 0x68, 0x10, 0x93, 0xed, 0x9c, 0xbe, 0x2c, 0x97, 0x4e],
     [0x13, 0x11, 0x1d, 0x7f, 0xe3, 0x94, 0x4a, 0x17, 0xf3, 0x07, 0xa7, 0x8b, 0x4d, 0x2b, 0x30, 0xc5]]"
    by (simp add: roundConstants_def xorBytes_def subByte_eval Let_def)
  have s0: "xorBytes [0x21, 0x26, 0x22, 0x23, 0x24, 0x25, 0x26, 0x27, 0x28, 0x29, 0x2a, 0x2b, 0x2c, 0x1e, 0x1d, 0x1c]
      [0x00, 0x01, 0x02, 0x03, 0x04, 0x05, 0x06, 0x07, 0x08, 0x09, 0x0a, 0x0b, 0x0c, 0x0d, 0x0e, 0x0f]
    = [0x21, 0x27, 0x20, 0x20, 0x20, 0x20, 0x20, 0x20, 0x20, 0x20, 0x20, 0x20, 0x20, 0x13, 0x13, 0x13]"
    by (simp add: xorBytes_def)
  have r1: "encRound [0x21, 0x27, 0x20, 0x20, 0x20, 0x20, 0x20, 0x20, 0x20, 0x20, 0x20, 0x20, 0x20, 0x13, 0x13, 0x13]
      [0xd6, 0xaa, 0x74, 0xfd, 0xd2, 0xaf, 0x72, 0xfa, 0xda, 0xa6, 0x78, 0xf1, 0xd6, 0xab, 0x76, 0xfe]
    = [0x3f, 0x9d, 0xcc, 0x1b, 0xaf, 0x5d, 0x4a, 0x87, 0x28, 0x9e, 0x05, 0x8c, 0xec, 0xea, 0xba, 0x32]"
    by (simp add: round_eval)
  have r2: "encRound [0x3f, 0x9d, 0xcc, 0x1b, 0xaf, 0x5d, 0x4a, 0x87, 0x28, 0x9e, 0x05, 0x8c, 0xec, 0xea, 0xba, 0x32]
      [0xb6, 0x92, 0xcf, 0x0b, 0x64, 0x3d, 0xbd, 0xf1, 0xbe, 0x9b, 0xc5, 0x00, 0x68, 0x30, 0xb3, 0xfe]
    = [0xc0, 0xe1, 0x45, 0xf5, 0xd0, 0xfa, 0xd6, 0xc0, 0x18, 0x70, 0xd9, 0xbe, 0xbf, 0x47, 0x38, 0xf7]"
    by (simp add: round_eval)
  have r3: "encRound [0xc0, 0xe1, 0x45, 0xf5, 0xd0, 0xfa, 0xd6, 0xc0, 0x18, 0x70, 0xd9, 0xbe, 0xbf, 0x47, 0x38, 0xf7]
      [0xb6, 0xff, 0x74, 0x4e, 0xd2, 0xc2, 0xc9, 0xbf, 0x6c, 0x59, 0x0c, 0xbf, 0x04, 0x69, 0xbf, 0x41]
    = [0xf3, 0x28, 0x31, 0x53, 0x20, 0xff, 0xd7, 0xae, 0x02, 0xa7, 0x08, 0xf2, 0x5f, 0x25, 0x51, 0x10]"
    by (simp add: round_eval)
  have r4: "encRound [0xf3, 0x28, 0x31, 0x53, 0x20, 0xff, 0xd7, 0xae, 0x02, 0xa7, 0x08, 0xf2, 0x5f, 0x25, 0x51, 0x10]
      [0x47, 0xf7, 0xf7, 0xbc, 0x95, 0x35, 0x3e, 0x03, 0xf9, 0x6c, 0x32, 0xbc, 0xfd, 0x05, 0x8d, 0xfd]
    = [0x9d, 0x4c, 0xc9, 0x02, 0x38, 0xbf, 0x40, 0x8d, 0x75, 0xd3, 0xd8, 0x0e, 0xa3, 0x39, 0xea, 0x84]"
    by (simp add: round_eval)
  have r5: "encRound [0x9d, 0x4c, 0xc9, 0x02, 0x38, 0xbf, 0x40, 0x8d, 0x75, 0xd3, 0xd8, 0x0e, 0xa3, 0x39, 0xea, 0x84]
      [0x3c, 0xaa, 0xa3, 0xe8, 0xa9, 0x9f, 0x9d, 0xeb, 0x50, 0xf3, 0xaf, 0x57, 0xad, 0xf6, 0x22, 0xaa]
    = [0xa6, 0x18, 0xd6, 0xdd, 0xfd, 0xb1, 0x70, 0xed, 0xc7, 0x6b, 0x66, 0x9e, 0x60, 0x1e, 0xf5, 0xd9]"
    by (simp add: round_eval)
  have r6: "encRound [0xa6, 0x18, 0xd6, 0xdd, 0xfd, 0xb1, 0x70, 0xed, 0xc7, 0x6b, 0x66, 0x9e, 0x60, 0x1e, 0xf5, 0xd9]
      [0x5e, 0x39, 0x0f, 0x7d, 0xf7, 0xa6, 0x92, 0x96, 0xa7, 0x55, 0x3d, 0xc1, 0x0a, 0xa3, 0x1f, 0x6b]
    = [0x53, 0xf6, 0xda, 0x80, 0xf9, 0xfc, 0x36, 0x6a, 0x05, 0x23, 0x81, 0xbe, 0x07, 0xca, 0xdd, 0xea]"
    by (simp add: round_eval)
  have r7: "encRound [0x53, 0xf6, 0xda, 0x80, 0xf9, 0xfc, 0x36, 0x6a, 0x05, 0x23, 0x81, 0xbe, 0x07, 0xca, 0xdd, 0xea]
      [0x14, 0xf9, 0x70, 0x1a, 0xe3, 0x5f, 0xe2, 0x8c, 0x44, 0x0a, 0xdf, 0x4d, 0x4e, 0xa9, 0xc0, 0x26]
    = [0x95, 0xfc, 0xa7, 0x9f, 0xac, 0x1f, 0x88, 0x5a, 0x5b, 0x72, 0x68, 0xd7, 0xb2, 0x49, 0xa4, 0x72]"
    by (simp add: round_eval)
  have r8: "encRound [0x95, 0xfc, 0xa7, 0x9f, 0xac, 0x1f, 0x88, 0x5a, 0x5b, 0x72, 0x68, 0xd7, 0xb2, 0x49, 0xa4, 0x72]
      [0x47, 0x43, 0x87, 0x35, 0xa4, 0x1c, 0x65, 0xb9, 0xe0, 0x16, 0xba, 0xf4, 0xae, 0xbf, 0x7a, 0xd2]
    = [0x4d, 0x7d, 0x27, 0x4e, 0xcf, 0x0d, 0x50, 0xb5, 0x3d, 0x03, 0xd9, 0xbf, 0xc1, 0xaa, 0x7c, 0xe3]"
    by (simp add: round_eval)
  have r9: "encRound [0x4d, 0x7d, 0x27, 0x4e, 0xcf, 0x0d, 0x50, 0xb5, 0x3d, 0x03, 0xd9, 0xbf, 0xc1, 0xaa, 0x7c, 0xe3]
      [0x54, 0x99, 0x32, 0xd1, 0xf0, 0x85, 0x57, 0x68, 0x10, 0x93, 0xed, 0x9c, 0xbe, 0x2c, 0x97, 0x4e]
    = [0xcf, 0x81, 0x5f, 0x2f, 0x4d, 0xe6, 0xf7, 0xd8, 0xa8, 0x6d, 0x81, 0x24, 0x0f, 0x4c, 0xae, 0x7a]"
    by (simp add: round_eval)
  have fin: "xorBytes (shiftRows (subBytes [0xcf, 0x81, 0x5f, 0x2f, 0x4d, 0xe6, 0xf7, 0xd8, 0xa8, 0x6d, 0x81, 0x24, 0x0f, 0x4c, 0xae, 0x7a]))
      [0x13, 0x11, 0x1d, 0x7f, 0xe3, 0x94, 0x4a, 0x17, 0xf3, 0x07, 0xa7, 0x8b, 0x4d, 0x2b, 0x30, 0xc5]
    = [0x99, 0x9f, 0x11, 0xa5, 0x00, 0xa8, 0xae, 0x02, 0x31, 0x2e, 0x68, 0xea, 0x3b, 0x27, 0x58, 0xf3]"
    by (simp add: round_eval)
  show ?thesis
    by (simp only: aesEncryptBlock_def ks s0 cipherRounds.simps r1 r2 r3 r4 r5 r6 r7 r8 r9 fin)
qed

section \<open>The operations on an example\<close>

text \<open>
  The timestamp \<open>1700000000000\<close>, the counting generator started at 0, and AES: the key is
  the bytes 0 to 15, the initialization vector the bytes 16 to 31.
\<close>

lemma natToString_numeral:
  "natToString (numeral k) = (if (numeral k :: nat) < 10 then [digitChar (numeral k)] else natToString (numeral k div 10) @ [digitChar (numeral k mod 10)])"
  by (rule natToString.simps)

lemma natToString_small: "natToString 0 = ''0''" "natToString (Suc 0) = ''1''"
  by (simp_all add: natToString.simps digitChar_def)

lemmas toString_eval = toString_def natToString_numeral natToString_small digitChar_def

lemmas parse_eval =
  parseNonNegativeInteger_def parseInt_def isStrWhiteSpaceChar_def isDigit_def digitsValue_def
  digitValue_def castNonNegativeInteger_eq toString_eval

lemma toString_example: "toString 1700000000000 = ''1700000000000''"
  by (simp add: toString_eval)

lemma toString_examples:
  "toString 999999999999999 = ''999999999999999''"
  "toString 1000000000000000 = ''1000000000000000''"
  "toString 9007199254740991 = ''9007199254740991''"
  "toString (- 100000000000000) = ''-100000000000000''"
  by (simp_all add: toString_eval)

lemma drawn_example:
  "drawn countingNext 16 0 = [0,1,2,3,4,5,6,7,8,9,10,11,12,13,14,15]"
  "drawn countingNext 16 (advanced countingNext 16 0)
     = [16,17,18,19,20,21,22,23,24,25,26,27,28,29,30,31]"
  "advanced countingNext 32 0 = 32"
  by code_simp+

lemma Buffer_from_example:
  "Buffer_from [0,1,2,3,4,5,6,7,8,9,10,11,12,13,14,15] = [0,1,2,3,4,5,6,7,8,9,10,11,12,13,14,15]"
  "Buffer_from [16,17,18,19,20,21,22,23,24,25,26,27,28,29,30,31]
     = [16,17,18,19,20,21,22,23,24,25,26,27,28,29,30,31]"
  by (simp_all add: Buffer_from_def)

lemma plaintext_example:
  "pkcs7pad (utf8Encode ''1700000000000'') = [49,55,48,48,48,48,48,48,48,48,48,48,48,3,3,3]"
  by code_simp

lemma ciphertext_example:
  "fst (cbcEncrypt aesEncryptBlock [0,1,2,3,4,5,6,7,8,9,10,11,12,13,14,15]
     [16,17,18,19,20,21,22,23,24,25,26,27,28,29,30,31]
     [49,55,48,48,48,48,48,48,48,48,48,48,48,3,3,3])
   = [0x99, 0x9f, 0x11, 0xa5, 0x00, 0xa8, 0xae, 0x02, 0x31, 0x2e, 0x68, 0xea, 0x3b, 0x27, 0x58, 0xf3]"
  by (simp add: cbcEncrypt_step cbcEncrypt_short xorBytes_def aesEncryptBlock_example)

lemma toHex_example:
  "toHex [0x99, 0x9f, 0x11, 0xa5, 0x00, 0xa8, 0xae, 0x02, 0x31, 0x2e, 0x68, 0xea, 0x3b, 0x27, 0x58, 0xf3]
     = ''999f11a500a8ae02312e68ea3b2758f3''"
  "toHex [16,17,18,19,20,21,22,23,24,25,26,27,28,29,30,31] = ''101112131415161718191a1b1c1d1e1f''"
  by code_simp+

lemmas example_eval =
  drawn_example Buffer_from_example toString_example plaintext_example ciphertext_example toHex_example

lemma createChallenge_example:
  "createChallenge countingNext aesEncryptBlock 1700000000000 0 =
     Inr (\<lparr>encodedTimestamp = ''999f11a500a8ae02312e68ea3b2758f3:101112131415161718191a1b1c1d1e1f'',
           secretKey = [0,1,2,3,4,5,6,7,8,9,10,11,12,13,14,15]\<rparr>, 32)"
  by (simp add: createChallenge_eq example_eval)

lemma decodeTimestamp_example:
  "decodeTimestamp aesDecryptBlock ''999f11a500a8ae02312e68ea3b2758f3:101112131415161718191a1b1c1d1e1f''
     [0,1,2,3,4,5,6,7,8,9,10,11,12,13,14,15] = Inr 1700000000000"
proof -
  let ?key = "[0,1,2,3,4,5,6,7,8,9,10,11,12,13,14,15] :: Buffer"
  let ?iv = "[16,17,18,19,20,21,22,23,24,25,26,27,28,29,30,31] :: Buffer"
  have k: "length ?key = 16" "length ?iv = 16" by simp_all
  have "decodeTimestamp aesDecryptBlock
      (toHex (fst (cbcEncrypt aesEncryptBlock ?key ?iv (pkcs7pad (utf8Encode ''1700000000000''))))
         @ '':'' @ toHex ?iv) ?key
    = parseNonNegativeInteger ''1700000000000''"
    by (rule decode_of_encoded [OF aes_blockCipherPair k])
  moreover have "parseNonNegativeInteger ''1700000000000'' = Inr 1700000000000"
    using parseNonNegativeInteger_toString [of 1700000000000] by (simp add: toString_example)
  ultimately show ?thesis by (simp add: example_eval)
qed

lemma split_examples:
  "split (CHR '':'') ''999f11a500a8ae02312e68ea3b2758f3:101112131415161718191a1b1c1d1e1f''
     = [''999f11a500a8ae02312e68ea3b2758f3'', ''101112131415161718191a1b1c1d1e1f'']"
  "split (CHR '':'') ''999f11a500a8ae02312e68ea3b2758f3:101112131415161718191a1b1c1d1e1f:zz''
     = [''999f11a500a8ae02312e68ea3b2758f3'', ''101112131415161718191a1b1c1d1e1f'', ''zz'']"
  by code_simp+

section \<open>The claims\<close>

subsection \<open>C1: the round trip\<close>

text \<open>
  C1 (as amended). For every timestamp \<open>t\<close> with \<open>0 \<le> t < 10 ^ 15\<close>, every generator and
  every generator state, \<open>createChallenge\<close> returns a challenge, and \<open>decodeTimestamp\<close> applied
  to its encoded timestamp and its secret key returns \<open>t\<close>. The block cipher is any pair of
  block permutations of which one undoes the other.
\<close>

theorem roundtrip_short:
  assumes "blockCipherPair E D" "0 \<le> t" "t < 10 ^ 15"
  shows "\<exists>c. createChallenge nxt E t rng = Inr (c, advanced nxt 32 rng)
           \<and> decodeTimestamp D (encodedTimestamp c) (secretKey c) = Inr t"
proof -
  have len: "length (toString t) \<le> 15" using assms(2,3) by (rule length_toString_short)
  have "decodeTimestamp D
      (toHex (fst (cbcEncrypt E (Buffer_from (drawn nxt 16 rng))
               (Buffer_from (drawn nxt 16 (advanced nxt 16 rng)))
               (pkcs7pad (utf8Encode (toString t)))))
             @ '':'' @ toHex (Buffer_from (drawn nxt 16 (advanced nxt 16 rng))))
      (Buffer_from (drawn nxt 16 rng)) = Inr t"
    using assms(2)
    by (simp only: decode_of_encoded [OF assms(1)] length_Buffer_from length_drawn
        parseNonNegativeInteger_toString) simp
  then show ?thesis
    by (simp add: createChallenge_succeeds [OF blockCipherPair_blockSized [OF assms(1)] len])
qed

text \<open>The round trip of \<open>1700000000000\<close>, on the counting generator started at 0.\<close>

theorem roundtrip_short_witness:
  "blockCipherPair aesEncryptBlock aesDecryptBlock \<and> (0::int) \<le> 1700000000000 \<and> (1700000000000::int) < 10 ^ 15
   \<and> createChallenge countingNext aesEncryptBlock 1700000000000 0 =
       Inr (\<lparr>encodedTimestamp = ''999f11a500a8ae02312e68ea3b2758f3:101112131415161718191a1b1c1d1e1f'',
             secretKey = [0,1,2,3,4,5,6,7,8,9,10,11,12,13,14,15]\<rparr>, 32)
   \<and> decodeTimestamp aesDecryptBlock ''999f11a500a8ae02312e68ea3b2758f3:101112131415161718191a1b1c1d1e1f''
         [0,1,2,3,4,5,6,7,8,9,10,11,12,13,14,15] = Inr 1700000000000"
proof -
  have h: "(0::int) \<le> 1700000000000" "(1700000000000::int) < 10 ^ 15" by simp_all
  from roundtrip_short [OF aes_blockCipherPair h, of countingNext 0]
  show ?thesis
    using aes_blockCipherPair h by (auto simp: createChallenge_example)
qed

text \<open>
  C1 as stated fails: \<open>10 ^ 15\<close> is a non-negative integer with a canonical decimal string
  of 16 characters, and \<open>createChallenge\<close> throws on it, so there is nothing to decode.
\<close>

theorem roundtrip_counterexample:
  "blockCipherPair aesEncryptBlock aesDecryptBlock
   \<and> parseNonNegativeInteger ''1000000000000000'' = Inr 1000000000000000
   \<and> toString 1000000000000000 = ''1000000000000000''
   \<and> createChallenge countingNext aesEncryptBlock 1000000000000000 0
       = Inl (DecodeFailure ''EncodedTimestampEncryptedPart'')"
proof -
  have "parseNonNegativeInteger (toString 1000000000000000) = Inr 1000000000000000"
    by (simp add: parseNonNegativeInteger_toString)
  moreover have "createChallenge countingNext aesEncryptBlock 1000000000000000 0
       = Inl (DecodeFailure ''EncodedTimestampEncryptedPart'')"
    by (rule createChallenge_fails [OF aes_blockSized(1)]) (simp add: toString_examples)
  ultimately show ?thesis by (simp add: aes_blockCipherPair toString_examples)
qed

subsection \<open>C2: when \<open>decodeTimestamp\<close> fails\<close>

text \<open>
  C2 (as amended). The integers of the source are floating-point numbers, and the model of
  \<open>parseInt\<close> and \<open>toString\<close> is exact for safe integers only; so the claim is stated for
  the encoded timestamps whose payload, if the first two parts decrypt to one, reads as a
  safe integer (\<open>payloadInSafeRange\<close>). Beyond that range the model is not the source: the
  payload \<open>9007199254740993\<close> is its own decimal string for the model, while \<open>parseInt\<close> of
  the source rounds it to \<open>9007199254740992\<close> and the source throws. For a block cipher that
  keeps the size of a block:

  \<^item> every encoded timestamp whose first part has at most 32 characters, which is one block
    and what the type \<open>EncodedTimestamp\<close> says, is in that range;

  \<^item> in that range, \<open>decodeTimestamp\<close> returns \<open>n\<close> exactly when \<open>n\<close> is a safe integer that is
    not negative, the string splits on the colon into two parts or more, the first part has
    an even length, the key and the bytes that the second part decodes to are 16 bytes
    each, the bytes that the first part decodes to are a whole number of blocks and at least
    one, the bytes that CBC decryption gives are well padded, and the payload, which is
    these bytes without their padding, is the decimal string of \<open>n\<close>;

  \<^item> in that range, it fails exactly when the string has no colon, or one of these
    conditions on the first two parts fails, or the payload is not the decimal string of
    any safe integer that is not negative.

  Parts after the second are ignored, and so is what follows the hexadecimal digits of a
  part: decoding a part from hexadecimal does not fail by itself.
\<close>

theorem decodeTimestamp_returns_iff:
  assumes "blockSized D"
  shows "(length (hd (split (CHR '':'') et)) \<le> 32 \<longrightarrow> payloadInSafeRange D et key)
       \<and> (payloadInSafeRange D et key \<longrightarrow>
            (decodeTimestamp D et key = Inr n \<longleftrightarrow>
               0 \<le> n \<and> isSafeInteger n
             \<and> (\<exists>encoded ivHex rest.
                  split (CHR '':'') et = encoded # ivHex # rest
                \<and> even (length encoded)
                \<and> length key = 16 \<and> length (fromHex ivHex) = 16
                \<and> fromHex encoded \<noteq> [] \<and> length (fromHex encoded) mod 16 = 0
                \<and> wellPadded (decryptedBlocks D key ivHex encoded)
                \<and> utf8Decode (unpadded (decryptedBlocks D key ivHex encoded)) = toString n))
          \<and> ((\<exists>e. decodeTimestamp D et key = Inl e) \<longleftrightarrow>
               length (split (CHR '':'') et) < 2
             \<or> (\<exists>encoded ivHex rest.
                  split (CHR '':'') et = encoded # ivHex # rest
                \<and> (odd (length encoded)
                   \<or> length key \<noteq> 16 \<or> length (fromHex ivHex) \<noteq> 16
                   \<or> fromHex encoded = [] \<or> length (fromHex encoded) mod 16 \<noteq> 0
                   \<or> \<not> wellPadded (decryptedBlocks D key ivHex encoded)
                   \<or> (\<forall>m. 0 \<le> m \<and> isSafeInteger m \<longrightarrow>
                        utf8Decode (unpadded (decryptedBlocks D key ivHex encoded)) \<noteq> toString m)))))"
proof (intro conjI impI)
  assume "length (hd (split (CHR '':'') et)) \<le> 32"
  then show "payloadInSafeRange D et key" by (rule payloadInSafeRange_oneBlock [OF assms])
next
  assume sr: "payloadInSafeRange D et key"
  show "decodeTimestamp D et key = Inr n \<longleftrightarrow>
               0 \<le> n \<and> isSafeInteger n
             \<and> (\<exists>encoded ivHex rest.
                  split (CHR '':'') et = encoded # ivHex # rest
                \<and> even (length encoded)
                \<and> length key = 16 \<and> length (fromHex ivHex) = 16
                \<and> fromHex encoded \<noteq> [] \<and> length (fromHex encoded) mod 16 = 0
                \<and> wellPadded (decryptedBlocks D key ivHex encoded)
                \<and> utf8Decode (unpadded (decryptedBlocks D key ivHex encoded)) = toString n)"
  proof (cases "split (CHR '':'') et")
    case Nil
    then show ?thesis using split_nonempty [of "CHR '':''" et] by simp
  next
    case (Cons encoded ps)
    note c1 = Cons
    show ?thesis
    proof (cases ps)
      case Nil
      with c1 show ?thesis by (simp add: decodeTimestamp_eq [OF assms])
    next
      case (Cons ivHex rest)
      with c1 have sp: "split (CHR '':'') et = encoded # ivHex # rest" by simp
      let ?s = "utf8Decode (unpadded (decryptedBlocks D key ivHex encoded))"
      have safe: "isSafeInteger n"
        if "even (length encoded)" "length key = 16" "length (fromHex ivHex) = 16"
           "fromHex encoded \<noteq> []" "length (fromHex encoded) mod 16 = 0"
           "wellPadded (decryptedBlocks D key ivHex encoded)" "?s = toString n"
        using sr that by (simp add: payloadInSafeRange_def sp inSafeRange_toString)
      show ?thesis
        using safe
        by (auto simp: decodeTimestamp_explicit [OF assms sp] sp parseNonNegativeInteger_Inr_iff)
    qed
  qed
next
  assume sr: "payloadInSafeRange D et key"
  show "(\<exists>e. decodeTimestamp D et key = Inl e) \<longleftrightarrow>
               length (split (CHR '':'') et) < 2
             \<or> (\<exists>encoded ivHex rest.
                  split (CHR '':'') et = encoded # ivHex # rest
                \<and> (odd (length encoded)
                   \<or> length key \<noteq> 16 \<or> length (fromHex ivHex) \<noteq> 16
                   \<or> fromHex encoded = [] \<or> length (fromHex encoded) mod 16 \<noteq> 0
                   \<or> \<not> wellPadded (decryptedBlocks D key ivHex encoded)
                   \<or> (\<forall>m. 0 \<le> m \<and> isSafeInteger m \<longrightarrow>
                        utf8Decode (unpadded (decryptedBlocks D key ivHex encoded)) \<noteq> toString m)))"
  proof (cases "split (CHR '':'') et")
    case Nil
    then show ?thesis using split_nonempty [of "CHR '':''" et] by simp
  next
    case (Cons encoded ps)
    note c1 = Cons
    show ?thesis
    proof (cases ps)
      case Nil
      with c1 show ?thesis by (simp add: decodeTimestamp_eq [OF assms])
    next
      case (Cons ivHex rest)
      with c1 have sp: "split (CHR '':'') et = encoded # ivHex # rest" by simp
      let ?p = "decryptedBlocks D key ivHex encoded"
      let ?s = "utf8Decode (unpadded ?p)"
      have canon: "(\<forall>m. 0 \<le> m \<and> isSafeInteger m \<longrightarrow> ?s \<noteq> toString m)
                 \<longleftrightarrow> (\<forall>m. 0 \<le> m \<longrightarrow> ?s \<noteq> toString m)"
        if "even (length encoded)" "length key = 16" "length (fromHex ivHex) = 16"
           "fromHex encoded \<noteq> []" "length (fromHex encoded) mod 16 = 0" "wellPadded ?p"
      proof -
        from sr that have "inSafeRange ?s" by (simp add: payloadInSafeRange_def sp)
        then have "\<And>m. ?s = toString m \<Longrightarrow> isSafeInteger m"
          by (simp add: inSafeRange_toString)
        then show ?thesis by blast
      qed
      show ?thesis
      proof (cases "odd (length encoded) \<or> length key \<noteq> 16 \<or> length (fromHex ivHex) \<noteq> 16
         \<or> fromHex encoded = [] \<or> length (fromHex encoded) mod 16 \<noteq> 0 \<or> \<not> wellPadded ?p")
        case True
        then show ?thesis
          by (simp add: decodeTimestamp_explicit [OF assms sp] sp) blast
      next
        case False
        then have c: "(\<forall>m. 0 \<le> m \<and> isSafeInteger m \<longrightarrow> ?s \<noteq> toString m)
                 \<longleftrightarrow> (\<forall>m. 0 \<le> m \<longrightarrow> ?s \<noteq> toString m)"
          by (intro canon) simp_all
        from False show ?thesis
          by (simp add: decodeTimestamp_explicit [OF assms sp] sp parseNonNegativeInteger_Inl_iff c)
      qed
    qed
  qed
qed

text \<open>
  The decoding of the example, in the range since its first part has 32 characters, with the
  parts and the payload it goes through; and the first part alone, which has no colon and
  fails.
\<close>

theorem decodeTimestamp_returns_iff_witness:
  "blockSized aesDecryptBlock
   \<and> length (hd (split (CHR '':'') ''999f11a500a8ae02312e68ea3b2758f3:101112131415161718191a1b1c1d1e1f'')) \<le> 32
   \<and> payloadInSafeRange aesDecryptBlock ''999f11a500a8ae02312e68ea3b2758f3:101112131415161718191a1b1c1d1e1f''
        [0,1,2,3,4,5,6,7,8,9,10,11,12,13,14,15]
   \<and> length (split (CHR '':'') ''999f11a500a8ae02312e68ea3b2758f3'') < 2
   \<and> payloadInSafeRange aesDecryptBlock ''999f11a500a8ae02312e68ea3b2758f3''
        [0,1,2,3,4,5,6,7,8,9,10,11,12,13,14,15]
   \<and> (\<exists>e. decodeTimestamp aesDecryptBlock ''999f11a500a8ae02312e68ea3b2758f3''
          [0,1,2,3,4,5,6,7,8,9,10,11,12,13,14,15] = Inl e)
   \<and> decodeTimestamp aesDecryptBlock ''999f11a500a8ae02312e68ea3b2758f3:101112131415161718191a1b1c1d1e1f''
        [0,1,2,3,4,5,6,7,8,9,10,11,12,13,14,15] = Inr 1700000000000
   \<and> 0 \<le> (1700000000000 :: number)
   \<and> isSafeInteger 1700000000000
   \<and> (\<exists>encoded ivHex rest.
         split (CHR '':'') ''999f11a500a8ae02312e68ea3b2758f3:101112131415161718191a1b1c1d1e1f''
           = encoded # ivHex # rest
       \<and> even (length encoded)
       \<and> length ([0,1,2,3,4,5,6,7,8,9,10,11,12,13,14,15] :: Buffer) = 16
       \<and> length (fromHex ivHex) = 16
       \<and> fromHex encoded \<noteq> [] \<and> length (fromHex encoded) mod 16 = 0
       \<and> wellPadded (decryptedBlocks aesDecryptBlock [0,1,2,3,4,5,6,7,8,9,10,11,12,13,14,15] ivHex encoded)
       \<and> utf8Decode (unpadded (decryptedBlocks aesDecryptBlock [0,1,2,3,4,5,6,7,8,9,10,11,12,13,14,15]
            ivHex encoded)) = toString 1700000000000)"
proof -
  note w = decodeTimestamp_returns_iff [OF aes_blockSized(2),
      of "''999f11a500a8ae02312e68ea3b2758f3:101112131415161718191a1b1c1d1e1f''"
         "[0,1,2,3,4,5,6,7,8,9,10,11,12,13,14,15]" 1700000000000]
  note z = decodeTimestamp_returns_iff [OF aes_blockSized(2),
      of "''999f11a500a8ae02312e68ea3b2758f3''"
         "[0,1,2,3,4,5,6,7,8,9,10,11,12,13,14,15]" 0]
  have sz: "split (CHR '':'') ''999f11a500a8ae02312e68ea3b2758f3'' = [''999f11a500a8ae02312e68ea3b2758f3'']"
    by code_simp
  have l: "length (hd (split (CHR '':'') ''999f11a500a8ae02312e68ea3b2758f3:101112131415161718191a1b1c1d1e1f'')) \<le> 32"
    by (simp add: split_examples)
  have lz: "length (hd (split (CHR '':'') ''999f11a500a8ae02312e68ea3b2758f3'')) \<le> 32"
    by (simp add: sz)
  have l2: "length (split (CHR '':'') ''999f11a500a8ae02312e68ea3b2758f3'') < 2"
    by (simp add: sz)
  note sr = w [THEN conjunct1, THEN mp, OF l]
  note srz = z [THEN conjunct1, THEN mp, OF lz]
  note r = w [THEN conjunct2, THEN mp, OF sr, THEN conjunct1, THEN iffD1, OF decodeTimestamp_example]
  note ez = z [THEN conjunct2, THEN mp, OF srz, THEN conjunct2, THEN iffD2, OF disjI1, OF l2]
  show ?thesis
    by (intro conjI aes_blockSized(2) l sr l2 srz ez decodeTimestamp_example
        r [THEN conjunct1] r [THEN conjunct2, THEN conjunct1] r [THEN conjunct2, THEN conjunct2])
qed

text \<open>
  C2 as stated fails: a string that splits into three parts is decoded, with no error, to the
  value of its first two parts.
\<close>

theorem decodeTimestamp_three_parts:
  "length (split (CHR '':'') ''999f11a500a8ae02312e68ea3b2758f3:101112131415161718191a1b1c1d1e1f:zz'') = 3
   \<and> decodeTimestamp aesDecryptBlock ''999f11a500a8ae02312e68ea3b2758f3:101112131415161718191a1b1c1d1e1f:zz''
        [0,1,2,3,4,5,6,7,8,9,10,11,12,13,14,15] = Inr 1700000000000"
proof -
  have "decodeTimestamp aesDecryptBlock ''999f11a500a8ae02312e68ea3b2758f3:101112131415161718191a1b1c1d1e1f:zz''
        [0,1,2,3,4,5,6,7,8,9,10,11,12,13,14,15]
      = decodeTimestamp aesDecryptBlock ''999f11a500a8ae02312e68ea3b2758f3:101112131415161718191a1b1c1d1e1f''
        [0,1,2,3,4,5,6,7,8,9,10,11,12,13,14,15]"
    by (simp only: decodeTimestamp_eq [OF aes_blockSized(2)] split_examples list.case)
  then show ?thesis
    by (simp only: decodeTimestamp_example split_examples) simp
qed

subsection \<open>C3: when \<open>createChallenge\<close> fails\<close>

text \<open>
  C3 (as amended). For a block cipher that keeps the size of a block and a timestamp that is a
  safe integer: when \<open>createChallenge\<close> fails, the error is that of the validation of the
  encrypted part, and the decimal string of the timestamp has 16 characters or more. The
  draws are never the cause: the key is always 32 hexadecimal digits, and the validation
  of the initialization vector always succeeds.
\<close>

theorem createChallenge_failure_cause:
  assumes "blockSized E" "isSafeInteger t"
  shows "(createChallenge nxt E t rng = Inl e \<longrightarrow>
            e = DecodeFailure ''EncodedTimestampEncryptedPart'' \<and> 16 \<le> length (toString t))
       \<and> length (toHex (Buffer_from (drawn nxt 16 rng))) = 32
       \<and> castIV (toHex (Buffer_from (drawn nxt 16 (advanced nxt 16 rng))))
           = Inr (toHex (Buffer_from (drawn nxt 16 (advanced nxt 16 rng))))"
proof -
  have "e = DecodeFailure ''EncodedTimestampEncryptedPart'' \<and> 16 \<le> length (toString t)"
    if f: "createChallenge nxt E t rng = Inl e"
  proof (cases "length (toString t) \<le> 15")
    case True
    from createChallenge_succeeds [OF assms(1) True, of nxt rng] f show ?thesis by simp
  next
    case False
    then have l: "16 \<le> length (toString t)" by simp
    from createChallenge_fails [OF assms(1) l, of nxt rng] f l show ?thesis by simp
  qed
  then show ?thesis
    by (simp add: castIV_eq length_toHex length_Buffer_from length_drawn)
qed

text \<open>The failure on \<open>10 ^ 15\<close>, with the counting generator started at 5.\<close>

theorem createChallenge_failure_cause_witness:
  "blockSized aesEncryptBlock \<and> isSafeInteger 1000000000000000
   \<and> createChallenge countingNext aesEncryptBlock 1000000000000000 5
       = Inl (DecodeFailure ''EncodedTimestampEncryptedPart'')
   \<and> 16 \<le> length (toString 1000000000000000)
   \<and> length (toHex (Buffer_from (drawn countingNext 16 5))) = 32"
proof -
  have s: "isSafeInteger 1000000000000000"
    by (simp add: isSafeInteger_def MAX_SAFE_INTEGER_def)
  have f: "createChallenge countingNext aesEncryptBlock 1000000000000000 5
       = Inl (DecodeFailure ''EncodedTimestampEncryptedPart'')"
    by (rule createChallenge_fails [OF aes_blockSized(1)]) (simp add: toString_examples)
  note w = createChallenge_failure_cause [OF aes_blockSized(1) s, of countingNext 5
      "DecodeFailure ''EncodedTimestampEncryptedPart''"]
  have a: "16 \<le> length (toString 1000000000000000)"
    using w [THEN conjunct1, THEN mp, OF f] by (rule conjunct2)
  have b: "length (toHex (Buffer_from (drawn countingNext 16 5))) = 32"
    using w [THEN conjunct2] by (rule conjunct1)
  show ?thesis by (intro conjI aes_blockSized(1) s f a b)
qed

text \<open>
  C3 as stated fails: on the largest safe integer, which has 16 digits, both draws are
  buffers of 16 bytes that encode to 32 hexadecimal digits, and \<open>createChallenge\<close> throws.
\<close>

theorem createChallenge_failure_counterexample:
  "createChallenge countingNext aesEncryptBlock 9007199254740991 100
     = Inl (DecodeFailure ''EncodedTimestampEncryptedPart'')
   \<and> length (Buffer_from (fst (randN countingNext 16 100))) = 16
   \<and> length (toHex (Buffer_from (fst (randN countingNext 16 100)))) = 32
   \<and> length (Buffer_from (fst (randN countingNext 16 (snd (randN countingNext 16 100))))) = 16
   \<and> length (toHex (Buffer_from (fst (randN countingNext 16 (snd (randN countingNext 16 100)))))) = 32"
proof -
  have "createChallenge countingNext aesEncryptBlock 9007199254740991 100
     = Inl (DecodeFailure ''EncodedTimestampEncryptedPart'')"
    by (rule createChallenge_fails [OF aes_blockSized(1)]) (simp add: toString_examples)
  then show ?thesis
    by (simp add: randN_16 length_toHex length_Buffer_from length_drawn)
qed

subsection \<open>C4: the transitions of the park\<close>

text \<open>
  C4. \<open>putChallenge e\<close> applied to the empty park gives the park with challenge that holds
  \<open>e\<close> unchanged. \<open>putSolution t k\<close> applied to any park gives a record tagged \<open>SolvedPark\<close>
  that keeps the encoded timestamp of its argument and holds \<open>t\<close> and \<open>k\<close> as they were
  supplied, whatever they are: nothing is computed from them and nothing is checked. Applied
  to a park with challenge, the result is a solved park.
\<close>

theorem park_transitions:
  "putChallenge e EmptyPark = mkParkWithChallenge e
   \<and> isParkWithChallenge (putChallenge e EmptyPark)
   \<and> parkEncodedTimestamp (putChallenge e EmptyPark) = Some e
   \<and> (isParkWithChallenge p \<longrightarrow> isSolvedPark (putSolution t k p))
   \<and> tag (putSolution t k p) = ''SolvedPark''
   \<and> parkEncodedTimestamp (putSolution t k p) = parkEncodedTimestamp p
   \<and> parkTimestamp (putSolution t k p) = Some t
   \<and> parkSecretKey (putSolution t k p) = Some k
   \<and> putSolution t k (mkParkWithChallenge e) = mkSolvedPark e k t"
  by (simp add: putChallenge_def putSolution_def EmptyPark_def mkParkWithChallenge_def
      mkSolvedPark_def isParkWithChallenge_def isSolvedPark_def)

text \<open>A park with challenge, and the solved park that \<open>putSolution\<close> makes of it.\<close>

theorem park_transitions_witness:
  "isParkWithChallenge (mkParkWithChallenge ''999f11a500a8ae02312e68ea3b2758f3:101112131415161718191a1b1c1d1e1f'')
   \<and> isSolvedPark (putSolution 5 ''ffffffffffffffffffffffffffffffff''
        (mkParkWithChallenge ''999f11a500a8ae02312e68ea3b2758f3:101112131415161718191a1b1c1d1e1f''))
   \<and> putSolution 5 ''ffffffffffffffffffffffffffffffff''
        (mkParkWithChallenge ''999f11a500a8ae02312e68ea3b2758f3:101112131415161718191a1b1c1d1e1f'')
      = mkSolvedPark ''999f11a500a8ae02312e68ea3b2758f3:101112131415161718191a1b1c1d1e1f''
          ''ffffffffffffffffffffffffffffffff'' 5"
proof -
  have h: "isParkWithChallenge (mkParkWithChallenge ''999f11a500a8ae02312e68ea3b2758f3:101112131415161718191a1b1c1d1e1f'')"
    by (simp add: isParkWithChallenge_def mkParkWithChallenge_def)
  from park_transitions [of "''999f11a500a8ae02312e68ea3b2758f3:101112131415161718191a1b1c1d1e1f''"
      "mkParkWithChallenge ''999f11a500a8ae02312e68ea3b2758f3:101112131415161718191a1b1c1d1e1f''"
      5 "''ffffffffffffffffffffffffffffffff''"] h
  show ?thesis by blast
qed

subsection \<open>C5: the timestamp of a solved park\<close>

text \<open>
  C5 (as amended). The timestamp of the record that \<open>putSolution t k\<close> returns is the supplied
  \<open>t\<close>, unchecked. When \<open>t\<close> is a result of \<open>decodeTimestamp\<close>, as it is in the flow of the
  source, the record made from a park with challenge is a solved park whose timestamp is an
  integer that is not negative.
\<close>

theorem solved_timestamp_as_supplied:
  "parkTimestamp (putSolution t k p) = Some t
   \<and> (decodeTimestamp D et key = Inr t \<longrightarrow> isParkWithChallenge p \<longrightarrow>
        isSolvedPark (putSolution t k p) \<and> (\<exists>n\<ge>0. parkTimestamp (putSolution t k p) = Some n))"
  using decodeTimestamp_nonneg [of D et key t]
  by (auto simp: putSolution_def isParkWithChallenge_def isSolvedPark_def)

text \<open>The solved park made of the timestamp that \<open>decodeTimestamp\<close> returns on the example.\<close>

theorem solved_timestamp_as_supplied_witness:
  "decodeTimestamp aesDecryptBlock ''999f11a500a8ae02312e68ea3b2758f3:101112131415161718191a1b1c1d1e1f''
     [0,1,2,3,4,5,6,7,8,9,10,11,12,13,14,15] = Inr 1700000000000
   \<and> isParkWithChallenge (mkParkWithChallenge ''999f11a500a8ae02312e68ea3b2758f3:101112131415161718191a1b1c1d1e1f'')
   \<and> isSolvedPark (putSolution 1700000000000 ''000102030405060708090a0b0c0d0e0f''
        (mkParkWithChallenge ''999f11a500a8ae02312e68ea3b2758f3:101112131415161718191a1b1c1d1e1f''))
   \<and> parkTimestamp (putSolution 1700000000000 ''000102030405060708090a0b0c0d0e0f''
        (mkParkWithChallenge ''999f11a500a8ae02312e68ea3b2758f3:101112131415161718191a1b1c1d1e1f''))
      = Some 1700000000000
   \<and> (0::int) \<le> 1700000000000"
proof -
  have h: "isParkWithChallenge (mkParkWithChallenge ''999f11a500a8ae02312e68ea3b2758f3:101112131415161718191a1b1c1d1e1f'')"
    by (simp add: isParkWithChallenge_def mkParkWithChallenge_def)
  from solved_timestamp_as_supplied [of 1700000000000 "''000102030405060708090a0b0c0d0e0f''"
      "mkParkWithChallenge ''999f11a500a8ae02312e68ea3b2758f3:101112131415161718191a1b1c1d1e1f''"
      aesDecryptBlock "''999f11a500a8ae02312e68ea3b2758f3:101112131415161718191a1b1c1d1e1f''"
      "[0,1,2,3,4,5,6,7,8,9,10,11,12,13,14,15]"]
    decodeTimestamp_example h
  show ?thesis by simp
qed

text \<open>
  C5 as stated fails: \<open>putSolution\<close> takes any number, and \<open>-5\<close> applied to a park with
  challenge gives a solved park whose timestamp is \<open>-5\<close>.
\<close>

theorem solved_timestamp_negative:
  "isParkWithChallenge (putChallenge ''999f11a500a8ae02312e68ea3b2758f3:101112131415161718191a1b1c1d1e1f'' EmptyPark)
   \<and> isSolvedPark (putSolution (- 5) ''000102030405060708090a0b0c0d0e0f''
        (putChallenge ''999f11a500a8ae02312e68ea3b2758f3:101112131415161718191a1b1c1d1e1f'' EmptyPark))
   \<and> parkTimestamp (putSolution (- 5) ''000102030405060708090a0b0c0d0e0f''
        (putChallenge ''999f11a500a8ae02312e68ea3b2758f3:101112131415161718191a1b1c1d1e1f'' EmptyPark))
      = Some (- 5)
   \<and> (- 5 :: int) < 0"
  by (simp add: putChallenge_def putSolution_def EmptyPark_def isParkWithChallenge_def
      isSolvedPark_def)

subsection \<open>C6: the strict parser\<close>

text \<open>
  C6. \<open>parseNonNegativeInteger\<close> throws on \<open>"007"\<close>, \<open>"-5"\<close>, \<open>"5.0"\<close> and \<open>"abc"\<close>, and
  returns the value of \<open>"0"\<close> and of \<open>"123456789"\<close>. On every string in the range where the
  model of the numbers is exact, it returns \<open>n\<close> exactly when \<open>parseInt\<close> reads \<open>n\<close>, the
  decimal string of \<open>n\<close> is the input again, and \<open>n\<close> is not negative; that is, exactly when
  the input is the decimal string of a non-negative \<open>n\<close>.
\<close>

theorem parseNonNegativeInteger_accepts:
  "(\<forall>s n. inSafeRange s \<longrightarrow>
      (parseNonNegativeInteger s = Inr n \<longleftrightarrow> parseInt s = Some n \<and> toString n = s \<and> 0 \<le> n))
   \<and> (\<forall>s n. inSafeRange s \<longrightarrow> (parseNonNegativeInteger s = Inr n \<longleftrightarrow> 0 \<le> n \<and> s = toString n))
   \<and> parseNonNegativeInteger ''007'' = Inl NotAValidNumber
   \<and> parseNonNegativeInteger ''-5'' = Inl Panic
   \<and> parseNonNegativeInteger ''5.0'' = Inl NotAValidNumber
   \<and> parseNonNegativeInteger ''abc'' = Inl NotANumber
   \<and> parseNonNegativeInteger ''0'' = Inr 0
   \<and> parseNonNegativeInteger ''123456789'' = Inr 123456789"
proof -
  have g1: "parseNonNegativeInteger s = Inr n \<longleftrightarrow> parseInt s = Some n \<and> toString n = s \<and> 0 \<le> n" for s n
    by (auto simp: parseNonNegativeInteger_def castNonNegativeInteger_eq split: option.splits)
  have e1: "parseNonNegativeInteger ''007'' = Inl NotAValidNumber" by (simp add: parse_eval)
  have e2: "parseNonNegativeInteger ''-5'' = Inl Panic" by (simp add: parse_eval)
  have e3: "parseNonNegativeInteger ''5.0'' = Inl NotAValidNumber" by (simp add: parse_eval)
  have e4: "parseNonNegativeInteger ''abc'' = Inl NotANumber" by (simp add: parse_eval)
  have e5: "parseNonNegativeInteger ''0'' = Inr 0" by (simp add: parse_eval)
  have e6: "parseNonNegativeInteger ''123456789'' = Inr 123456789" by (simp add: parse_eval)
  show ?thesis
    using g1 parseNonNegativeInteger_Inr_iff e1 e2 e3 e4 e5 e6 by blast
qed

text \<open>The parser on \<open>"123456789"\<close>, a string in the exact range.\<close>

theorem parseNonNegativeInteger_accepts_witness:
  "inSafeRange ''123456789''
   \<and> parseNonNegativeInteger ''123456789'' = Inr 123456789
   \<and> parseInt ''123456789'' = Some 123456789
   \<and> toString 123456789 = ''123456789''"
proof -
  have p: "parseInt ''123456789'' = Some 123456789"
    by (simp add: parse_eval)
  then have s: "inSafeRange ''123456789''"
    by (simp add: inSafeRange_def isSafeInteger_def MAX_SAFE_INTEGER_def)
  from parseNonNegativeInteger_accepts s p show ?thesis by blast
qed

subsection \<open>C7: the shape of the encoded timestamp\<close>

text \<open>
  C7. Whenever \<open>createChallenge\<close> returns, the encoded timestamp is \<open>part:ivHex\<close>, where both
  parts are 32 lowercase hexadecimal digits; it holds one colon, and splitting it on the
  colon gives the two parts.
\<close>

theorem createChallenge_shape:
  assumes "createChallenge nxt E t rng = Inr (c, rng')"
  shows "\<exists>part ivHex.
           encodedTimestamp c = part @ '':'' @ ivHex
         \<and> split (CHR '':'') (encodedTimestamp c) = [part, ivHex]
         \<and> length (filter (\<lambda>x. x = CHR '':'') (encodedTimestamp c)) = 1
         \<and> length part = 32 \<and> isLowerHex part
         \<and> length ivHex = 32 \<and> isLowerHex ivHex"
proof -
  let ?part = "toHex (fst (cbcEncrypt E (Buffer_from (drawn nxt 16 rng))
               (Buffer_from (drawn nxt 16 (advanced nxt 16 rng)))
               (pkcs7pad (utf8Encode (toString t)))))"
  let ?iv = "toHex (Buffer_from (drawn nxt 16 (advanced nxt 16 rng)))"
  note d = createChallenge_Inr_D [OF assms]
  have "split (CHR '':'') (?part @ '':'' @ ?iv) = [?part, ?iv]"
    by (simp add: split_append colon_notin_toHex split_no_sep)
  moreover have "length (filter (\<lambda>x. x = CHR '':'') (?part @ '':'' @ ?iv)) = 1"
    by (rule count_colon) (rule colon_notin_toHex)+
  moreover have "length ?iv = 32" by (simp add: length_toHex length_Buffer_from length_drawn)
  ultimately show ?thesis
    using d(1) isLowerHex_toHex by (simp only: d(2)) blast
qed

text \<open>The shape of the challenge made of \<open>1700000000000\<close> on the counting generator.\<close>

theorem createChallenge_shape_witness:
  "createChallenge countingNext aesEncryptBlock 1700000000000 0 =
     Inr (\<lparr>encodedTimestamp = ''999f11a500a8ae02312e68ea3b2758f3:101112131415161718191a1b1c1d1e1f'',
           secretKey = [0,1,2,3,4,5,6,7,8,9,10,11,12,13,14,15]\<rparr>, 32)
   \<and> (\<exists>part ivHex.
         ''999f11a500a8ae02312e68ea3b2758f3:101112131415161718191a1b1c1d1e1f'' = part @ '':'' @ ivHex
       \<and> split (CHR '':'') ''999f11a500a8ae02312e68ea3b2758f3:101112131415161718191a1b1c1d1e1f''
           = [part, ivHex]
       \<and> length part = 32 \<and> isLowerHex part \<and> length ivHex = 32 \<and> isLowerHex ivHex)"
  using createChallenge_shape [OF createChallenge_example] createChallenge_example
  by (simp del: append.simps split.simps)

subsection \<open>C8: the secret key\<close>

text \<open>
  C8. Whenever \<open>createChallenge\<close> returns, the secret key is 16 bytes: the first 16 values of
  the generator, each one reduced to its low eight bits (the value modulo 256).
\<close>

theorem createChallenge_secretKey:
  assumes "createChallenge nxt E t rng = Inr (c, rng')"
  shows "length (secretKey c) = 16
       \<and> secretKey c = map word_of_int (drawn nxt 16 rng)
       \<and> (\<forall>i<16. uint (secretKey c ! i) = fst (nxt (advanced nxt i rng)) mod 256)"
proof -
  have k: "secretKey c = map word_of_int (drawn nxt 16 rng)"
    using createChallenge_Inr_D(3) [OF assms] by (simp add: Buffer_from_def)
  have "uint (map word_of_int (drawn nxt 16 rng) ! i :: byte) = fst (nxt (advanced nxt i rng)) mod 256"
    if "i < 16" for i
    using that by (simp add: drawn_def advanced_def uint_word_of_int)
  with k show ?thesis by (simp add: length_drawn)
qed

text \<open>The secret key of the challenge made on the counting generator started at 0.\<close>

theorem createChallenge_secretKey_witness:
  "createChallenge countingNext aesEncryptBlock 1700000000000 0 =
     Inr (\<lparr>encodedTimestamp = ''999f11a500a8ae02312e68ea3b2758f3:101112131415161718191a1b1c1d1e1f'',
           secretKey = [0,1,2,3,4,5,6,7,8,9,10,11,12,13,14,15]\<rparr>, 32)
   \<and> length [0,1,2,3,4,5,6,7,8,9,10,11,12,13,14,15 :: byte] = 16
   \<and> ([0,1,2,3,4,5,6,7,8,9,10,11,12,13,14,15] :: Buffer) = map word_of_int (drawn countingNext 16 0)"
proof -
  note w = createChallenge_secretKey [OF createChallenge_example, unfolded Challenge.select_convs]
  show ?thesis
    by (intro conjI createChallenge_example w [THEN conjunct1] w [THEN conjunct2, THEN conjunct1])
qed

subsection \<open>C9: determinism\<close>

text \<open>
  C9. The result of \<open>createChallenge\<close> is a function of the timestamp and of the first 32
  values the generator gives: two generators, even of different kinds, that give the same 32
  values give the same encoded timestamp and secret key, or the same error. The generator
  returned is the argument advanced by 32 steps, and nothing else changes. Two calls with the
  same timestamp on the same generator state therefore give the same result.
\<close>

theorem createChallenge_deterministic:
  "(drawn nxt 32 rng = drawn nxt' 32 rng2 \<longrightarrow>
      map_sum id fst (createChallenge nxt E t rng) = map_sum id fst (createChallenge nxt' E t rng2))
   \<and> (createChallenge nxt E t rng = Inr (c, rng') \<longrightarrow> rng' = advanced nxt 32 rng)
   \<and> (createChallenge nxt E t rng = r1 \<and> createChallenge nxt E t rng = r2 \<longrightarrow> r1 = r2)"
proof -
  have "map_sum id fst (createChallenge nxt E t rng) = map_sum id fst (createChallenge nxt' E t rng2)"
    if eq: "drawn nxt 32 rng = drawn nxt' 32 rng2"
  proof -
    have "drawn nxt (16 + 16) rng = drawn nxt' (16 + 16) rng2" using eq by simp
    then have "drawn nxt 16 rng @ drawn nxt 16 (advanced nxt 16 rng)
        = drawn nxt' 16 rng2 @ drawn nxt' 16 (advanced nxt' 16 rng2)"
      by (simp only: drawn_add)
    then have "drawn nxt 16 rng = drawn nxt' 16 rng2
        \<and> drawn nxt 16 (advanced nxt 16 rng) = drawn nxt' 16 (advanced nxt' 16 rng2)"
      by (rule halves_eq) (simp add: length_drawn)
    then show ?thesis by (simp add: createChallenge_eq Let_def)
  qed
  moreover have "rng' = advanced nxt 32 rng" if "createChallenge nxt E t rng = Inr (c, rng')"
    using createChallenge_Inr_D(4) [OF that] .
  ultimately show ?thesis by blast
qed

text \<open>
  The counting generator and a generator with another kind of state that gives the same
  values: the two challenges are the same.
\<close>

theorem createChallenge_deterministic_witness:
  "drawn countingNext 32 0 = drawn (\<lambda>s. (fst s, (fst s + snd s, snd s))) 32 (0, 1)
   \<and> map_sum id fst (createChallenge countingNext aesEncryptBlock 1700000000000 0)
       = map_sum id fst (createChallenge (\<lambda>s. (fst s, (fst s + snd s, snd s))) aesEncryptBlock 1700000000000 (0, 1))
   \<and> createChallenge countingNext aesEncryptBlock 1700000000000 0 =
       Inr (\<lparr>encodedTimestamp = ''999f11a500a8ae02312e68ea3b2758f3:101112131415161718191a1b1c1d1e1f'',
             secretKey = [0,1,2,3,4,5,6,7,8,9,10,11,12,13,14,15]\<rparr>, 32)
   \<and> (32::int) = advanced countingNext 32 0"
proof -
  have d: "drawn countingNext 32 0 = drawn (\<lambda>s. (fst s, (fst s + snd s, snd s))) 32 (0, 1)"
    by code_simp
  note w = createChallenge_deterministic [of countingNext 0 "\<lambda>s. (fst s, (fst s + snd s, snd s))" "(0, 1)"
      aesEncryptBlock 1700000000000
      "\<lparr>encodedTimestamp = ''999f11a500a8ae02312e68ea3b2758f3:101112131415161718191a1b1c1d1e1f'',
        secretKey = [0,1,2,3,4,5,6,7,8,9,10,11,12,13,14,15]\<rparr>" 32]
  have a: "map_sum id fst (createChallenge countingNext aesEncryptBlock 1700000000000 0)
       = map_sum id fst (createChallenge (\<lambda>s. (fst s, (fst s + snd s, snd s))) aesEncryptBlock 1700000000000 (0, 1))"
    using w [THEN conjunct1] d by (rule mp)
  have b: "(32::int) = advanced countingNext 32 0"
    using w [THEN conjunct2, THEN conjunct1] createChallenge_example by (rule mp)
  show ?thesis by (intro conjI d a b createChallenge_example)
qed

subsection \<open>C10: the length of the decimal string decides\<close>

text \<open>
  C10. For a block cipher that keeps the size of a block and a timestamp that is a safe
  integer: when the decimal string of the timestamp has at most 15 characters,
  \<open>createChallenge\<close> returns a challenge; when it has 16 characters or more, the ciphertext
  is two blocks, 64 hexadecimal digits, and \<open>createChallenge\<close> throws the error of the
  validation of the encrypted part. The values drawn play no part.
\<close>

theorem createChallenge_length_decides:
  assumes "blockSized E" "isSafeInteger t"
  shows "(length (toString t) \<le> 15 \<longrightarrow>
            (\<exists>c. createChallenge nxt E t rng = Inr (c, advanced nxt 32 rng)))
       \<and> (16 \<le> length (toString t) \<longrightarrow>
            (\<exists>ct. aes128cbcEncrypt E (Buffer_from (drawn nxt 16 rng))
                     (Buffer_from (drawn nxt 16 (advanced nxt 16 rng)))
                     (utf8Encode (toString t)) = Inr ct
                 \<and> length (toHex ct) = 64)
            \<and> createChallenge nxt E t rng = Inl (DecodeFailure ''EncodedTimestampEncryptedPart''))"
proof (intro conjI impI)
  assume "length (toString t) \<le> 15"
  from createChallenge_succeeds [OF assms(1) this, of nxt rng]
  show "\<exists>c. createChallenge nxt E t rng = Inr (c, advanced nxt 32 rng)" by simp
next
  assume l: "16 \<le> length (toString t)"
  from length_toString_safe [OF assms(2)] l
  have "length (toString t) div 16 = 1" by simp
  then have "length (toHex (fst (cbcEncrypt E (Buffer_from (drawn nxt 16 rng))
               (Buffer_from (drawn nxt 16 (advanced nxt 16 rng)))
               (pkcs7pad (utf8Encode (toString t)))))) = 64"
    by (simp add: length_encoded [OF assms(1)] length_Buffer_from length_drawn length_utf8Encode)
  then show "\<exists>ct. aes128cbcEncrypt E (Buffer_from (drawn nxt 16 rng))
                     (Buffer_from (drawn nxt 16 (advanced nxt 16 rng)))
                     (utf8Encode (toString t)) = Inr ct
                 \<and> length (toHex ct) = 64"
    by (simp add: aes128cbcEncrypt_drawn)
next
  assume "16 \<le> length (toString t)"
  from createChallenge_fails [OF assms(1) this]
  show "createChallenge nxt E t rng = Inl (DecodeFailure ''EncodedTimestampEncryptedPart'')" .
qed

text \<open>
  A timestamp of 15 digits, on which the call returns, and a negative one of 16 characters,
  on which it throws.
\<close>

theorem createChallenge_length_decides_witness:
  "blockSized aesEncryptBlock \<and> isSafeInteger 999999999999999 \<and> isSafeInteger (- 100000000000000)
   \<and> length (toString 999999999999999) \<le> 15
   \<and> (\<exists>c. createChallenge countingNext aesEncryptBlock 999999999999999 0 = Inr (c, advanced countingNext 32 0))
   \<and> 16 \<le> length (toString (- 100000000000000))
   \<and> createChallenge countingNext aesEncryptBlock (- 100000000000000) 0
       = Inl (DecodeFailure ''EncodedTimestampEncryptedPart'')"
proof -
  have s: "isSafeInteger 999999999999999" "isSafeInteger (- 100000000000000)"
    by (simp_all add: isSafeInteger_def MAX_SAFE_INTEGER_def)
  have l: "length (toString 999999999999999) \<le> 15" "16 \<le> length (toString (- 100000000000000))"
    by (simp_all add: toString_examples)
  note w1 = createChallenge_length_decides [OF aes_blockSized(1) s(1), of countingNext 0]
  note w2 = createChallenge_length_decides [OF aes_blockSized(1) s(2), of countingNext 0]
  have a: "\<exists>c. createChallenge countingNext aesEncryptBlock 999999999999999 0 = Inr (c, advanced countingNext 32 0)"
    using w1 [THEN conjunct1] l(1) by (rule mp)
  have b: "createChallenge countingNext aesEncryptBlock (- 100000000000000) 0
       = Inl (DecodeFailure ''EncodedTimestampEncryptedPart'')"
    using w2 [THEN conjunct2, THEN mp, OF l(2)] by (rule conjunct2)
  show ?thesis by (intro conjI aes_blockSized(1) s l a b)
qed

end
